theory Spec2Isabelle
  imports Complex_Main "HOL-Library.Multiset"
begin

section \<open>Strings, JSON values and errors\<close>

text \<open>
  Strings are lists of bytes, the UTF-8 form of the text. \<open>String.prototype.trim\<close>
  strips the white space and the line terminators of ECMAScript from both ends. In
  UTF-8 these are: TAB, LF, VT, FF, CR, SPACE, U+00A0, U+1680, U+2000 to U+200A, U+2028,
  U+2029, U+202F, U+205F, U+3000 and U+FEFF.
\<close>

definition white_space :: "string list" where
  "white_space =
     [[CHR 0x09], [CHR 0x0A], [CHR 0x0B], [CHR 0x0C], [CHR 0x0D], [CHR 0x20],
      [CHR 0xC2, CHR 0xA0],
      [CHR 0xE1, CHR 0x9A, CHR 0x80],
      [CHR 0xE2, CHR 0x80, CHR 0x80], [CHR 0xE2, CHR 0x80, CHR 0x81],
      [CHR 0xE2, CHR 0x80, CHR 0x82], [CHR 0xE2, CHR 0x80, CHR 0x83],
      [CHR 0xE2, CHR 0x80, CHR 0x84], [CHR 0xE2, CHR 0x80, CHR 0x85],
      [CHR 0xE2, CHR 0x80, CHR 0x86], [CHR 0xE2, CHR 0x80, CHR 0x87],
      [CHR 0xE2, CHR 0x80, CHR 0x88], [CHR 0xE2, CHR 0x80, CHR 0x89],
      [CHR 0xE2, CHR 0x80, CHR 0x8A],
      [CHR 0xE2, CHR 0x80, CHR 0xA8], [CHR 0xE2, CHR 0x80, CHR 0xA9],
      [CHR 0xE2, CHR 0x80, CHR 0xAF],
      [CHR 0xE2, CHR 0x81, CHR 0x9F],
      [CHR 0xE3, CHR 0x80, CHR 0x80],
      [CHR 0xEF, CHR 0xBB, CHR 0xBF]]"

text \<open>The first of the given byte sequences that the string starts with.\<close>

definition leading :: "string list \<Rightarrow> string \<Rightarrow> string option" where
  "leading toks s = find (\<lambda>w. w \<noteq> [] \<and> take (length w) s = w) toks"

function strip_leading :: "string list \<Rightarrow> string \<Rightarrow> string" where
  "strip_leading toks s =
     (case leading toks s of
        None \<Rightarrow> s
      | Some w \<Rightarrow> strip_leading toks (drop (length w) s))"
  by pat_completeness auto
termination
proof (relation "measure (\<lambda>(toks, s). length s)")
  show "wf (measure (\<lambda>(toks, s). length s))" by simp
next
  fix toks :: "string list" and s w :: string
  assume "leading toks s = Some w"
  then have "w \<noteq> []" "take (length w) s = w"
    by (auto simp: leading_def find_Some_iff)
  then have "s \<noteq> []" "0 < length w" by auto
  then show "((toks, drop (length w) s), (toks, s)) \<in> measure (\<lambda>(toks, s). length s)"
    by simp
qed

declare strip_leading.simps [simp del]

text \<open>\<open>trim\<close>: strip at the front, then at the back (the front of the reversed string).\<close>

definition trim :: "string \<Rightarrow> string" where
  "trim s = rev (strip_leading (map rev white_space) (rev (strip_leading white_space s)))"

text \<open>No sequence of the list is the beginning of another one.\<close>

definition prefix_free :: "string list \<Rightarrow> bool" where
  "prefix_free toks =
     (\<forall>w\<in>set toks. \<forall>v\<in>set toks. v \<noteq> [] \<and> take (length v) w = v \<longrightarrow> v = w)"

text \<open>A text that consists of the given byte sequences only.\<close>

inductive made_of :: "string list \<Rightarrow> string \<Rightarrow> bool" for toks :: "string list" where
  empty: "made_of toks []"
| token: "w \<in> set toks \<Longrightarrow> made_of toks s \<Longrightarrow> made_of toks (w @ s)"

text \<open>
  \<open>s.split(sep)\<close> for a one-character separator: always at least one piece; the empty
  string gives one empty piece.
\<close>

fun split_char :: "char \<Rightarrow> string \<Rightarrow> string list" where
  "split_char sep [] = [[]]"
| "split_char sep (c # cs) =
     (if c = sep then [] # split_char sep cs
      else (case split_char sep cs of
              [] \<Rightarrow> [[c]]
            | l # ls \<Rightarrow> (c # l) # ls))"

definition split_nl :: "string \<Rightarrow> string list" where
  "split_nl s = split_char CHR 0x0A s"


text \<open>JSON values; an object keeps its keys in insertion order.\<close>

datatype json =
  JNull
  | JBool bool
  | JNumber real
  | JString string
  | JArray "json list"
  | JObject "(string \<times> json) list"

text \<open>
  What a database statement can fail with: a statement that the environment makes fail
  (connection, I/O, an aborted transaction), and the constraints of the schema.
\<close>

datatype db_write = WriteMemory | WriteEmbedding | WriteEvent

datatype db_error =
  QueryFailed db_write
  | NotNullViolation string
  | ForeignKeyViolation string
  | UniqueViolation string
  | DimensionMismatch nat
  | InvalidTimestamp string

text \<open>Thrown values: \<open>Error(message)\<close>, \<open>TypeError\<close>, a missing file, a database error.\<close>

datatype js_error =
  ENOENT string
  | Error string
  | TypeError string
  | DatabaseError db_error


section \<open>Session index staleness (StalenessDetector)\<close>

text \<open>
  The table \<open>session_index_state\<close> has \<open>source_path\<close> as its primary key, so it is a
  partial map from paths to rows. All four columns are SQL INTEGERs; timestamps are
  Unix seconds.
\<close>

record IndexState =
  source_path :: string
  last_indexed_at :: int
  file_mtime :: int
  message_count :: int

type_synonym session_index_state = "string \<rightharpoonup> IndexState"

definition GRACE_PERIOD_SECONDS :: int where
  "GRACE_PERIOD_SECONDS = 300"

text \<open>
  \<open>recordIndexed\<close>: the upsert \<open>INSERT ... ON CONFLICT(source_path) DO UPDATE\<close>
  overwrites the three other columns. \<open>now\<close> is \<open>Math.floor(Date.now() / 1000)\<close>.
\<close>

definition recordIndexed ::
  "session_index_state \<Rightarrow> int \<Rightarrow> string \<Rightarrow> int \<Rightarrow> int \<Rightarrow> session_index_state" where
  "recordIndexed tbl now p mtime messageCount =
     tbl(p \<mapsto> \<lparr>source_path = p, last_indexed_at = now, file_mtime = mtime,
                 message_count = messageCount\<rparr>)"

definition getIndexState :: "session_index_state \<Rightarrow> string \<Rightarrow> IndexState option" where
  "getIndexState tbl p = tbl p"

definition checkStaleness :: "session_index_state \<Rightarrow> string \<Rightarrow> int \<Rightarrow> bool" where
  "checkStaleness tbl p currentMtime =
     (case getIndexState tbl p of
        None \<Rightarrow> True
      | Some state \<Rightarrow>
          (let mtimeDelta = currentMtime - file_mtime state
           in mtimeDelta > GRACE_PERIOD_SECONDS))"

record BulkStalenessResult =
  res_path :: string
  isStale :: bool
  indexState :: "IndexState option"

text \<open>
  \<open>checkBulkStaleness\<close>: one \<open>IN\<close> query selects the rows of the requested paths, a
  lookup map is built from them, and every item is checked against that map.
\<close>

definition checkBulkStaleness ::
  "session_index_state \<Rightarrow> (string \<times> int) list \<Rightarrow> BulkStalenessResult list" where
  "checkBulkStaleness tbl items =
     (if items = [] then []
      else
        (let stateMap = tbl |` set (map fst items)
         in map (\<lambda>(p, currentMtime).
                  (case stateMap p of
                     None \<Rightarrow> \<lparr>res_path = p, isStale = True, indexState = None\<rparr>
                   | Some state \<Rightarrow>
                       \<lparr>res_path = p,
                        isStale = (currentMtime - file_mtime state > GRACE_PERIOD_SECONDS),
                        indexState = Some state\<rparr>))
                items))"

definition getStaleFiles :: "session_index_state \<Rightarrow> (string \<times> int) list \<Rightarrow> string list" where
  "getStaleFiles tbl items = map res_path (filter isStale (checkBulkStaleness tbl items))"


section \<open>Session viewer (viewSessionLine)\<close>

definition digit_char :: "nat \<Rightarrow> char" where
  "digit_char d = ''0123456789'' ! d"

text \<open>\<open>Number.prototype.toString\<close> on a non-negative integer: its decimal digits.\<close>

fun nat_toString :: "nat \<Rightarrow> string" where
  "nat_toString n =
     (if n < 10 then [digit_char n] else nat_toString (n div 10) @ [digit_char (n mod 10)])"

definition int_toString :: "int \<Rightarrow> string" where
  "int_toString i = (if i < 0 then CHR ''-'' # nat_toString (nat (- i)) else nat_toString (nat i))"

definition padStart :: "nat \<Rightarrow> char \<Rightarrow> string \<Rightarrow> string" where
  "padStart w c s = replicate (w - length s) c @ s"

definition rule_line :: string where
  "rule_line = replicate 40 CHR ''-''"

text \<open>The lines of the file that the viewer numbers: every blank line is filtered out.\<close>

definition session_lines :: "string \<Rightarrow> string list" where
  "session_lines content = filter (\<lambda>l. trim l \<noteq> []) (split_nl content)"

definition format_line :: "string list \<Rightarrow> int \<Rightarrow> int \<Rightarrow> string" where
  "format_line ls line i =
     (let isTarget = (i = line);
          prefix = (if isTarget then ''>'' else '' '');
          lineNum = padStart 5 CHR '' '' (int_toString i)
      in prefix @ lineNum @ '' | '' @ ls ! nat (i - 1))"

text \<open>
  The \<open>output\<close> array of \<open>viewSessionLine\<close>, before it is joined. The file system is a
  map from paths to contents; \<open>readFileSync\<close> throws on a missing file. \<open>line\<close> defaults
  to 1 and \<open>context\<close> to 3. The \<open>for\<close> loop from \<open>startLine\<close> to \<open>endLine\<close> is the map
  over the integer interval, empty when \<open>endLine < startLine\<close>.
\<close>

definition viewSessionLine_output ::
  "(string \<rightharpoonup> string) \<Rightarrow> string \<Rightarrow> int option \<Rightarrow> int option \<Rightarrow> js_error + string list" where
  "viewSessionLine_output fs p line_opt context_opt =
     (let line = (case line_opt of None \<Rightarrow> 1 | Some l \<Rightarrow> l);
          context = (case context_opt of None \<Rightarrow> 3 | Some c \<Rightarrow> c)
      in case fs p of
           None \<Rightarrow> Inl (ENOENT p)
         | Some content \<Rightarrow>
             (let ls = session_lines content in
              if line < 1 \<or> line > int (length ls)
              then Inl (Error (''Line number must be between 1 and '' @ nat_toString (length ls)))
              else
                (let startLine = max 1 (line - context);
                     endLine = min (int (length ls)) (line + context)
                 in Inr ([''File: '' @ p,
                          ''Line: '' @ int_toString line @
                             (if context > 0 then '' (context: '' @ int_toString context @ '')''
                              else ''''),
                          rule_line]
                         @ map (format_line ls line) [startLine..endLine]
                         @ [rule_line]))))"




text \<open>A seven-line session file, used to evaluate the viewer.\<close>

definition seven_lines :: string where
  "seven_lines = ''l1
l2
l3
l4
l5
l6
l7
''"




section \<open>Dependency graph (beads/dependencies)\<close>

datatype relationship = Blocks | BlockedBy | Related | DiscoveredFrom

record bead_dependency =
  bead_id :: string
  depends_on_id :: string
  relationship :: relationship

datatype bead_status = Open | InProgress | Blocked | Closed | Tombstone

text \<open>The columns of \<open>beads\<close> that the dependency queries read; \<open>id\<close> is the key.\<close>

record bead =
  bead_project_key :: string
  bead_status :: bead_status
  bead_deleted_at :: "int option"

record cache_row =
  blocker_ids :: "string list"
  updated_at :: int

record beads_db =
  beads :: "string \<rightharpoonup> bead"
  bead_dependencies :: "bead_dependency list"
  blocked_beads_cache :: "string \<rightharpoonup> cache_row"

definition MAX_DEPENDENCY_DEPTH :: nat where
  "MAX_DEPENDENCY_DEPTH = 100"

text \<open>
  \<open>WITH RECURSIVE t AS (base UNION step)\<close>, as the database evaluates it: the base rows,
  without duplicates, are the first result and the first working table. Each round
  evaluates the recursive term with the working table in the place of \<open>t\<close>, drops
  duplicates and the rows already in the result, appends what is left to the result
  and takes it as the next working table. The evaluation ends when the working table
  is empty; a query whose working table never empties does not return, which is the
  value \<open>None\<close>.
\<close>

partial_function (option) with_recursive ::
  "('r list \<Rightarrow> 'r list) \<Rightarrow> 'r list \<Rightarrow> 'r list \<Rightarrow> 'r list option" where
  "with_recursive step result work =
     (if work = [] then Some result
      else (let new = filter (\<lambda>r. r \<notin> set result) (remdups (step work))
            in with_recursive step (result @ new) new))"

declare with_recursive.simps [code]

definition recursive_cte :: "'r list \<Rightarrow> ('r list \<Rightarrow> 'r list) \<Rightarrow> 'r list option" where
  "recursive_cte base step = (let b = remdups base in with_recursive step b b)"

text \<open>
  The CTE \<open>paths\<close> of \<open>wouldCreateCycle\<close>, rows \<open>(bead_id, depends_on_id, depth)\<close>. Neither
  term has a condition on \<open>relationship\<close>.
\<close>

definition paths_base :: "bead_dependency list \<Rightarrow> string \<Rightarrow> (string \<times> string \<times> nat) list" where
  "paths_base deps dependsOnId =
     [(bead_id d, depends_on_id d, 1). d \<leftarrow> deps, bead_id d = dependsOnId]"

definition paths_step ::
  "bead_dependency list \<Rightarrow> nat \<Rightarrow> (string \<times> string \<times> nat) list \<Rightarrow> (string \<times> string \<times> nat) list" where
  "paths_step deps maxd work =
     [(bead_id bd, depends_on_id bd, depth + 1).
        bd \<leftarrow> deps, (p_bead, p_dep, depth) \<leftarrow> work, bead_id bd = p_dep \<and> depth < maxd]"

definition wouldCreateCycle :: "bead_dependency list \<Rightarrow> string \<Rightarrow> string \<Rightarrow> bool option" where
  "wouldCreateCycle deps beadId dependsOnId =
     map_option (\<lambda>paths. \<exists>(p_bead, p_dep, depth) \<in> set paths. p_dep = beadId)
       (recursive_cte (paths_base deps dependsOnId) (paths_step deps MAX_DEPENDENCY_DEPTH))"

text \<open>The CTE \<open>blockers\<close> of \<open>getOpenBlockers\<close>, rows \<open>(blocker_id, depth)\<close>.\<close>

definition blockers_base :: "bead_dependency list \<Rightarrow> string \<Rightarrow> (string \<times> nat) list" where
  "blockers_base deps beadId =
     [(depends_on_id d, 1). d \<leftarrow> deps, bead_id d = beadId \<and> relationship d = Blocks]"

definition blockers_step ::
  "bead_dependency list \<Rightarrow> nat \<Rightarrow> (string \<times> nat) list \<Rightarrow> (string \<times> nat) list" where
  "blockers_step deps maxd work =
     [(depends_on_id bd, depth + 1).
        bd \<leftarrow> deps, (blocker_id, depth) \<leftarrow> work,
        bead_id bd = blocker_id \<and> relationship bd = Blocks \<and> depth < maxd]"

definition open_bead :: "beads_db \<Rightarrow> string \<Rightarrow> string \<Rightarrow> bool" where
  "open_bead db projectKey b =
     (case beads db b of
        None \<Rightarrow> False
      | Some bead \<Rightarrow> bead_project_key bead = projectKey \<and> bead_status bead \<noteq> Closed
                    \<and> bead_deleted_at bead = None)"

definition getOpenBlockers :: "beads_db \<Rightarrow> string \<Rightarrow> string \<Rightarrow> string list option" where
  "getOpenBlockers db projectKey beadId =
     map_option
       (\<lambda>blockers. remdups [blocker_id. (blocker_id, depth) \<leftarrow> blockers,
                                         open_bead db projectKey blocker_id])
       (recursive_cte (blockers_base (bead_dependencies db) beadId)
                      (blockers_step (bead_dependencies db) MAX_DEPENDENCY_DEPTH))"

text \<open>\<open>now\<close> is the reading of \<open>Date.now()\<close> at the upsert.\<close>

definition rebuildBeadBlockedCache :: "beads_db \<Rightarrow> int \<Rightarrow> string \<Rightarrow> string \<Rightarrow> beads_db option" where
  "rebuildBeadBlockedCache db now projectKey beadId =
     (case getOpenBlockers db projectKey beadId of
        None \<Rightarrow> None
      | Some blockerIds \<Rightarrow>
          Some (if length blockerIds > 0
                then db\<lparr>blocked_beads_cache :=
                          (blocked_beads_cache db)(beadId \<mapsto>
                             \<lparr>blocker_ids = blockerIds, updated_at = now\<rparr>)\<rparr>
                else db\<lparr>blocked_beads_cache := (blocked_beads_cache db)(beadId := None)\<rparr>))"

text \<open>
  The loop over the rows of a query, one rebuild per row; \<open>clock i\<close> is the reading of
  \<open>Date.now()\<close> in the \<open>i\<close>-th rebuild of the call.
\<close>

fun rebuild_rows :: "beads_db \<Rightarrow> (nat \<Rightarrow> int) \<Rightarrow> nat \<Rightarrow> string \<Rightarrow> string list \<Rightarrow> beads_db option" where
  "rebuild_rows db clock i projectKey [] = Some db"
| "rebuild_rows db clock i projectKey (row # rows) =
     (case rebuildBeadBlockedCache db (clock i) projectKey row of
        None \<Rightarrow> None
      | Some db' \<Rightarrow> rebuild_rows db' clock (Suc i) projectKey rows)"

definition invalidateBlockedCache ::
  "beads_db \<Rightarrow> (nat \<Rightarrow> int) \<Rightarrow> string \<Rightarrow> string \<Rightarrow> beads_db option" where
  "invalidateBlockedCache db clock projectKey beadId =
     (case rebuildBeadBlockedCache db (clock 0) projectKey beadId of
        None \<Rightarrow> None
      | Some db1 \<Rightarrow>
          (let dependents = [bead_id d. d \<leftarrow> bead_dependencies db1, depends_on_id d = beadId]
           in rebuild_rows db1 clock 1 projectKey dependents))"

text \<open>The edges of the dependency table, of every relationship and of \<open>blocks\<close> alone.\<close>

definition dep_edges :: "bead_dependency list \<Rightarrow> (string \<times> string) set" where
  "dep_edges deps = {(bead_id d, depends_on_id d) | d. d \<in> set deps}"

definition blocks_edges :: "bead_dependency list \<Rightarrow> (string \<times> string) set" where
  "blocks_edges deps = {(bead_id d, depends_on_id d) | d. d \<in> set deps \<and> relationship d = Blocks}"

datatype dep_error = Cycle | GraphTooDeep

text \<open>
  Modelled from the spec: depth overflow, the second failure of the dependency graph
  ("depth overflow fails with \<open>GraphTooDeep\<close>"), which the sources do not have. The
  traversal of \<open>would_create_cycle\<close> from \<open>dependsOnId\<close> overflows when it is cut at the
  depth limit: a row of depth 100 has a row of \<open>bead_dependencies\<close> that continues it.
\<close>

definition depth_overflow :: "bead_dependency list \<Rightarrow> string \<Rightarrow> bool option" where
  "depth_overflow deps dependsOnId =
     map_option
       (\<lambda>paths. \<exists>(p_bead, p_dep, depth) \<in> set paths.
                  depth = MAX_DEPENDENCY_DEPTH \<and> (\<exists>bd \<in> set deps. bead_id bd = p_dep))
       (recursive_cte (paths_base deps dependsOnId) (paths_step deps MAX_DEPENDENCY_DEPTH))"

text \<open>
  Modelled from the spec: the projection rule of \<open>bead_dependency_added\<close>, whose code
  (beads/projections) is not among the sources: "reject with \<open>Cycle\<close> if
  \<open>would_create_cycle\<close>; insert row", with the failure semantics of the dependency
  graph: "cycle attempts fail with \<open>Cycle(path)\<close>; depth overflow fails with
  \<open>GraphTooDeep\<close>". The path that \<open>Cycle\<close> reports is not modelled. The cache
  invalidation that follows the insert does not write \<open>bead_dependencies\<close> and is left
  out.
\<close>

definition add_dependency ::
  "bead_dependency list \<Rightarrow> bead_dependency \<Rightarrow> (dep_error + bead_dependency list) option" where
  "add_dependency deps d =
     (case wouldCreateCycle deps (bead_id d) (depends_on_id d) of
        None \<Rightarrow> None
      | Some True \<Rightarrow> Some (Inl Cycle)
      | Some False \<Rightarrow>
          (case depth_overflow deps (depends_on_id d) of
             None \<Rightarrow> None
           | Some True \<Rightarrow> Some (Inl GraphTooDeep)
           | Some False \<Rightarrow> Some (Inr (deps @ [d]))))"


text \<open>
  What a depth-bounded recursive query collects from a set of base rows: \<open>succ p\<close> are
  the rows that the recursive term derives from the row \<open>p\<close>, \<open>dp\<close> reads the depth
  column, and only rows of depth below \<open>maxd\<close> are extended.
\<close>

inductive_set cte_closure :: "('r \<Rightarrow> 'r set) \<Rightarrow> ('r \<Rightarrow> nat) \<Rightarrow> nat \<Rightarrow> 'r set \<Rightarrow> 'r set"
  for succ :: "'r \<Rightarrow> 'r set" and dp :: "'r \<Rightarrow> nat" and maxd :: nat and W :: "'r set" where
  base: "r \<in> W \<Longrightarrow> r \<in> cte_closure succ dp maxd W"
| step: "p \<in> cte_closure succ dp maxd W \<Longrightarrow> dp p < maxd \<Longrightarrow> r \<in> succ p
         \<Longrightarrow> r \<in> cte_closure succ dp maxd W"

text \<open>The rows that the recursive terms of \<open>paths\<close> and of \<open>blockers\<close> derive from one row.\<close>

definition paths_succ :: "bead_dependency list \<Rightarrow> string \<times> string \<times> nat \<Rightarrow> (string \<times> string \<times> nat) set" where
  "paths_succ deps p =
     {(bead_id bd, depends_on_id bd, Suc (snd (snd p))) | bd. bd \<in> set deps \<and> bead_id bd = fst (snd p)}"

definition blockers_succ :: "bead_dependency list \<Rightarrow> string \<times> nat \<Rightarrow> (string \<times> nat) set" where
  "blockers_succ deps p =
     {(depends_on_id bd, Suc (snd p)) | bd.
        bd \<in> set deps \<and> bead_id bd = fst p \<and> relationship bd = Blocks}"

text \<open>
  The cache row that a fresh computation of the open blockers gives a bead: absent
  when there is no open blocker.
\<close>

definition fresh_blockers :: "beads_db \<Rightarrow> string \<Rightarrow> string \<Rightarrow> string list option" where
  "fresh_blockers db projectKey beadId =
     (case getOpenBlockers db projectKey beadId of
        None \<Rightarrow> None
      | Some bs \<Rightarrow> if bs = [] then None else Some bs)"

definition direct_dependents :: "beads_db \<Rightarrow> string \<Rightarrow> string set" where
  "direct_dependents db beadId =
     set [bead_id d. d \<leftarrow> bead_dependencies db, depends_on_id d = beadId]"

text \<open>
  A chain of three open beads of project \<open>/repo\<close>: \<open>c\<close> depends on \<open>b\<close>, \<open>b\<close> depends on
  \<open>id\<close>, both by \<open>blocks\<close>; the cache is empty.
\<close>

definition open_in_repo :: bead where
  "open_in_repo = \<lparr>bead_project_key = ''/repo'', bead_status = Open, bead_deleted_at = None\<rparr>"

definition chain_db :: beads_db where
  "chain_db =
     \<lparr>beads = [''id'' \<mapsto> open_in_repo, ''b'' \<mapsto> open_in_repo, ''c'' \<mapsto> open_in_repo],
      bead_dependencies =
        [\<lparr>bead_id = ''c'', depends_on_id = ''b'', relationship = Blocks\<rparr>,
         \<lparr>bead_id = ''b'', depends_on_id = ''id'', relationship = Blocks\<rparr>],
      blocked_beads_cache = Map.empty\<rparr>"

text \<open>
  A chain of 101 \<open>blocks\<close> rows over 102 beads, named by their position in unary:
  bead \<open>i\<close> depends on bead \<open>i + 1\<close>. And the row that closes the chain into a cycle.
\<close>

definition chain_bead :: "nat \<Rightarrow> string" where
  "chain_bead i = replicate i CHR ''x''"

definition long_chain :: "bead_dependency list" where
  "long_chain =
     map (\<lambda>i. \<lparr>bead_id = chain_bead i, depends_on_id = chain_bead (Suc i), relationship = Blocks\<rparr>)
         [0..<101]"

definition closing_row :: bead_dependency where
  "closing_row = \<lparr>bead_id = chain_bead 101, depends_on_id = chain_bead 0, relationship = Blocks\<rparr>"


section \<open>Semantic memory store (memory/store)\<close>

definition EMBEDDING_DIM :: nat where
  "EMBEDDING_DIM = 1024"

text \<open>
  The interface \<open>Memory\<close>. A \<open>Date\<close> is its epoch time in milliseconds; numbers are
  reals.
\<close>

record Memory =
  mem_id :: string
  content :: string
  metadata :: json
  collection :: string
  createdAt :: int
  confidence :: "real option"

text \<open>
  A row of \<open>memories\<close> (key \<open>id\<close>) and the table \<open>memory_embeddings\<close> (key
  \<open>memory_id\<close>, referencing \<open>memories\<close>, column \<open>vector(1024) NOT NULL\<close>).
  \<open>created_at\<close> is nullable. A transaction in progress remembers the tables as they
  were at \<open>BEGIN\<close>.
\<close>

record memory_row =
  row_content :: string
  row_metadata :: json
  row_collection :: string
  row_created_at :: "int option"
  row_confidence :: real

record memory_db =
  memories :: "string \<rightharpoonup> memory_row"
  memory_embeddings :: "string \<rightharpoonup> real list"
  tx_snapshot :: "((string \<rightharpoonup> memory_row) \<times> (string \<rightharpoonup> real list)) option"

definition db_begin :: "memory_db \<Rightarrow> memory_db" where
  "db_begin db = db\<lparr>tx_snapshot := Some (memories db, memory_embeddings db)\<rparr>"

definition db_commit :: "memory_db \<Rightarrow> memory_db" where
  "db_commit db = db\<lparr>tx_snapshot := None\<rparr>"

definition db_rollback :: "memory_db \<Rightarrow> memory_db" where
  "db_rollback db =
     (case tx_snapshot db of
        None \<Rightarrow> db
      | Some (m, e) \<Rightarrow> db\<lparr>memories := m, memory_embeddings := e, tx_snapshot := None\<rparr>)"

text \<open>
  The two statements of \<open>store\<close>. \<open>fails\<close> tells which statements the environment makes
  fail. On a conflicting \<open>id\<close> the first statement sets \<open>content\<close>, \<open>metadata\<close>,
  \<open>collection\<close> and \<open>confidence\<close> and nothing else.
\<close>

definition upsert_memory :: "(db_write \<Rightarrow> bool) \<Rightarrow> memory_db \<Rightarrow> Memory \<Rightarrow> db_error + memory_db" where
  "upsert_memory fails db memory =
     (if fails WriteMemory then Inl (QueryFailed WriteMemory)
      else
        (let conf = (case confidence memory of None \<Rightarrow> 0.7 | Some c \<Rightarrow> c)
         in Inr (db\<lparr>memories := (memories db)(mem_id memory \<mapsto>
               (case memories db (mem_id memory) of
                  None \<Rightarrow>
                    \<lparr>row_content = content memory, row_metadata = metadata memory,
                     row_collection = collection memory,
                     row_created_at = Some (createdAt memory), row_confidence = conf\<rparr>
                | Some old \<Rightarrow>
                    old\<lparr>row_content := content memory, row_metadata := metadata memory,
                        row_collection := collection memory, row_confidence := conf\<rparr>))\<rparr>)))"

definition upsert_embedding ::
  "(db_write \<Rightarrow> bool) \<Rightarrow> memory_db \<Rightarrow> string \<Rightarrow> real list \<Rightarrow> db_error + memory_db" where
  "upsert_embedding fails db memory_id embedding =
     (if fails WriteEmbedding then Inl (QueryFailed WriteEmbedding)
      else if length embedding \<noteq> EMBEDDING_DIM then Inl (DimensionMismatch (length embedding))
      else if memories db memory_id = None then Inl (ForeignKeyViolation memory_id)
      else Inr (db\<lparr>memory_embeddings := (memory_embeddings db)(memory_id \<mapsto> embedding)\<rparr>))"

text \<open>
  \<open>store\<close> returns the database it leaves behind and the error it throws, if any:
  \<open>BEGIN\<close>, the two statements, \<open>COMMIT\<close>; on an error \<open>ROLLBACK\<close> and rethrow.
\<close>

definition store ::
  "(db_write \<Rightarrow> bool) \<Rightarrow> memory_db \<Rightarrow> Memory \<Rightarrow> real list \<Rightarrow> memory_db \<times> js_error option" where
  "store fails db memory embedding =
     (let db0 = db_begin db in
      case upsert_memory fails db0 memory of
        Inl e \<Rightarrow> (db_rollback db0, Some (DatabaseError e))
      | Inr db1 \<Rightarrow>
          (case upsert_embedding fails db1 (mem_id memory) embedding of
             Inl e \<Rightarrow> (db_rollback db1, Some (DatabaseError e))
           | Inr db2 \<Rightarrow> (db_commit db2, None)))"

datatype match_type = Vector | Fts

record SearchResult =
  memory :: Memory
  score :: real
  matchType :: match_type


section \<open>Memory adapter (memory/adapter)\<close>

record StoreOptions =
  opt_collection :: "string option"
  opt_tags :: "string option"
  opt_metadata :: "string option"

record FindOptions =
  opt_limit :: "nat option"
  find_collection :: "string option"
  opt_expand :: "bool option"
  opt_fts :: "bool option"

text \<open>
  What the adapter is given: the embedding client (\<open>Inl\<close> when Ollama fails),
  \<open>JSON.parse\<close> (\<open>None\<close> when it throws), and the two searches of the store, whose
  ranking is the database's (\<open>limit\<close> and \<open>collection\<close> are passed on).
\<close>

record adapter_env =
  ollama_embed :: "string \<Rightarrow> string + real list"
  json_parse :: "string \<Rightarrow> json option"
  search :: "memory_db \<Rightarrow> real list \<Rightarrow> nat \<Rightarrow> string option \<Rightarrow> SearchResult list"
  ftsSearch :: "memory_db \<Rightarrow> string \<Rightarrow> nat \<Rightarrow> string option \<Rightarrow> SearchResult list"

definition generateEmbedding :: "adapter_env \<Rightarrow> string \<Rightarrow> real list option" where
  "generateEmbedding env text =
     (case ollama_embed env text of
        Inl err \<Rightarrow> None
      | Inr v \<Rightarrow> Some v)"

definition calculateDecayFactor :: "int \<Rightarrow> int \<Rightarrow> real" where
  "calculateDecayFactor now created =
     (let ageInDays = real_of_int (now - created) / (1000 * 60 * 60 * 24)
      in 0.5 powr (ageInDays / 90))"

text \<open>\<open>clock i\<close> is the reading of \<open>Date.now()\<close> for the \<open>i\<close>-th result.\<close>

definition applyDecay :: "(nat \<Rightarrow> int) \<Rightarrow> SearchResult list \<Rightarrow> SearchResult list" where
  "applyDecay clock results =
     map (\<lambda>(i, result).
            result\<lparr>score := score result
                       * calculateDecayFactor (clock i) (createdAt (memory result))\<rparr>)
         (enumerate 0 results)"

definition parseTags :: "string option \<Rightarrow> string list option" where
  "parseTags tags =
     (case tags of
        None \<Rightarrow> None
      | Some t \<Rightarrow> if t = [] then None
                  else Some (filter (\<lambda>x. x \<noteq> []) (map trim (split_char CHR '','' t))))"

fun obj_put :: "(string \<times> json) list \<Rightarrow> string \<Rightarrow> json \<Rightarrow> (string \<times> json) list" where
  "obj_put [] k v = [(k, v)]"
| "obj_put ((k', v') # kvs) k v =
     (if k' = k then (k, v) # kvs else (k', v') # obj_put kvs k v)"

text \<open>
  \<open>value.key = v\<close> in strict mode, followed by \<open>JSON.stringify\<close>: an object gets the
  key, an array gets a property that is not serialised, \<open>null\<close> and the primitives
  throw.
\<close>

definition set_property :: "json \<Rightarrow> string \<Rightarrow> json \<Rightarrow> js_error + json" where
  "set_property j k v =
     (case j of
        JObject kvs \<Rightarrow> Inr (JObject (obj_put kvs k v))
      | JArray xs \<Rightarrow> Inr (JArray xs)
      | _ \<Rightarrow> Inl (TypeError (''Cannot set properties of a non-object (setting '' @ k @ '')'')))"

text \<open>
  The adapter's \<open>store\<close>; \<open>new_id\<close> is the generated identifier and \<open>now\<close> the reading
  of the clock. It returns the database it leaves behind and the identifier or the
  thrown error.
\<close>

definition adapter_store ::
  "adapter_env \<Rightarrow> (db_write \<Rightarrow> bool) \<Rightarrow> string \<Rightarrow> int \<Rightarrow> memory_db \<Rightarrow> string \<Rightarrow> StoreOptions
     \<Rightarrow> memory_db \<times> (js_error + string)" where
  "adapter_store env fails new_id now db information options =
     (let coll = (case opt_collection options of None \<Rightarrow> ''default'' | Some c \<Rightarrow> c);
          parsed = (case opt_metadata options of
                      None \<Rightarrow> Inr (JObject [])
                    | Some metadataJson \<Rightarrow>
                        if metadataJson = [] then Inr (JObject [])
                        else (case json_parse env metadataJson of
                                None \<Rightarrow> Inl (Error ''Invalid JSON in metadata field'')
                              | Some j \<Rightarrow> Inr j))
      in case parsed of
           Inl e \<Rightarrow> (db, Inl e)
         | Inr metadata0 \<Rightarrow>
             (case (case parseTags (opt_tags options) of
                      None \<Rightarrow> Inr metadata0
                    | Some parsedTags \<Rightarrow>
                        set_property metadata0 ''tags'' (JArray (map JString parsedTags))) of
                Inl e \<Rightarrow> (db, Inl e)
              | Inr metadata1 \<Rightarrow>
                  (case generateEmbedding env information of
                     None \<Rightarrow>
                       (db, Inl (Error (''Failed to generate embedding. '' @
                                  ''Ensure Ollama is running and model is available.'')))
                   | Some embedding \<Rightarrow>
                       (let m = \<lparr>mem_id = new_id, content = information, metadata = metadata1,
                                 collection = coll, createdAt = now, confidence = None\<rparr>
                        in case store fails db m embedding of
                             (db', Some e) \<Rightarrow> (db', Inl e)
                           | (db', None) \<Rightarrow> (db', Inr new_id)))))"

definition truncate_content :: "SearchResult \<Rightarrow> SearchResult" where
  "truncate_content r =
     r\<lparr>memory := (memory r)\<lparr>content :=
          (if length (content (memory r)) > 200
           then take 200 (content (memory r)) @ ''...''
           else content (memory r))\<rparr>\<rparr>"

text \<open>
  The adapter's \<open>find\<close>. Its first part picks the search: full-text when asked
  for, else vector search, falling back to full-text when the embedding fails.
\<close>

definition search_results ::
  "adapter_env \<Rightarrow> memory_db \<Rightarrow> string \<Rightarrow> FindOptions \<Rightarrow> SearchResult list" where
  "search_results env db query options =
     (let lim = (case opt_limit options of None \<Rightarrow> 10 | Some l \<Rightarrow> l);
          coll = find_collection options;
          fts = (case opt_fts options of None \<Rightarrow> False | Some b \<Rightarrow> b)
      in if fts then ftsSearch env db query lim coll
         else (case generateEmbedding env query of
                 None \<Rightarrow> ftsSearch env db query lim coll
               | Some embedding \<Rightarrow> search env db embedding lim coll))"

text \<open>
  Then the decay, the sort and the truncation. \<open>Array.prototype.sort\<close> is stable;
  with the comparator \<open>b.score - a.score\<close> it sorts by descending score.
\<close>

definition adapter_find ::
  "adapter_env \<Rightarrow> (nat \<Rightarrow> int) \<Rightarrow> memory_db \<Rightarrow> string \<Rightarrow> FindOptions \<Rightarrow> SearchResult list" where
  "adapter_find env clock db query options =
     (let expand = (case opt_expand options of None \<Rightarrow> False | Some b \<Rightarrow> b);
          results0 = search_results env db query options;
          results1 = applyDecay clock results0;
          results2 = sort_key (\<lambda>r. - score r) results1
      in if \<not> expand then map truncate_content results2 else results2)"

text \<open>
  Concrete data for evaluating the store and the adapter: a database with the memory
  \<open>mem-1\<close>, an embedding client that is down, and a full-text search that returns two
  results of raw score 1, the older one first: \<open>B\<close> created at time 0 and \<open>A\<close> created
  at time \<open>15552000000\<close>, 180 days later.
\<close>

definition sample_row :: memory_row where
  "sample_row = \<lparr>row_content = ''old text'', row_metadata = JObject [], row_collection = ''default'',
            row_created_at = Some 1000, row_confidence = 0.7\<rparr>"

definition sample_db :: memory_db where
  "sample_db = \<lparr>memories = [''mem-1'' \<mapsto> sample_row],
           memory_embeddings = [''mem-1'' \<mapsto> replicate 1024 0],
           tx_snapshot = None\<rparr>"

definition sample_memory :: Memory where
  "sample_memory = \<lparr>mem_id = ''mem-1'', content = ''new text'', metadata = JObject [(''k'', JBool True)],
            collection = ''notes'', createdAt = 5000, confidence = Some 0.9\<rparr>"

definition res_fresh :: SearchResult where
  "res_fresh = \<lparr>memory = \<lparr>mem_id = ''A'', content = ''same text'', metadata = JObject [],
                          collection = ''default'', createdAt = 15552000000, confidence = None\<rparr>,
                 score = 1, matchType = Fts\<rparr>"

definition res_old :: SearchResult where
  "res_old = \<lparr>memory = \<lparr>mem_id = ''B'', content = ''same text'', metadata = JObject [],
                        collection = ''default'', createdAt = 0, confidence = None\<rparr>,
               score = 1, matchType = Fts\<rparr>"

definition env_down :: adapter_env where
  "env_down = \<lparr>ollama_embed = (\<lambda>t. Inl ''ECONNREFUSED''),
                json_parse = (\<lambda>s. None),
                search = (\<lambda>db e lim coll. []),
                ftsSearch = (\<lambda>db q lim coll. [res_old, res_fresh])\<rparr>"


section \<open>Memory sync: JSONL import (memory/sync)\<close>

text \<open>
  A parsed line is whatever value \<open>JSON.parse\<close> returns: the cast to \<open>MemoryExport\<close> in
  \<open>parseMemoryJSONL\<close> checks nothing. \<open>read_prop v k\<close> is the read \<open>v.k\<close> of one of the properties
  \<open>id\<close>, \<open>information\<close>, \<open>metadata\<close>, \<open>tags\<close>, \<open>confidence\<close>, \<open>created_at\<close> on a value
  other than \<open>null\<close>: the entry of an object, and \<open>undefined\<close> (\<open>None\<close>) on a missing key
  and on every other value. On \<open>null\<close> the read throws, which \<open>importSingleMemory\<close> and
  \<open>import_loop\<close> write out.
\<close>

definition read_prop :: "json \<Rightarrow> string \<Rightarrow> json option" where
  "read_prop v k = (case v of JObject kvs \<Rightarrow> map_of kvs k | _ \<Rightarrow> None)"

text \<open>The truthiness of a value read from a parsed line.\<close>

fun truthy :: "json option \<Rightarrow> bool" where
  "truthy None = False"
| "truthy (Some JNull) = False"
| "truthy (Some (JBool b)) = b"
| "truthy (Some (JNumber n)) = (n \<noteq> 0)"
| "truthy (Some (JString s)) = (s \<noteq> [])"
| "truthy (Some (JArray xs)) = True"
| "truthy (Some (JObject kvs)) = True"

text \<open>
  An entry of \<open>errors\<close> keeps \<open>memoryExport.id\<close> as it was read and the error that was
  caught, whose message it stores.
\<close>

record MemoryImportResult =
  created :: nat
  skipped :: nat
  errors :: "(json option \<times> js_error) list"

text \<open>
  What the import is given: \<open>JSON.parse\<close> on a text (\<open>Inl\<close> the message of the
  \<open>SyntaxError\<close> it throws), the conversion \<open>ToString\<close> of a value that is not a string
  (\<open>None\<close> when it throws), the UTF-16 code units of a string, each as a string, the
  text that the database driver sends for a parameter that is not a string (\<open>None\<close>
  when the value is refused), and the database's reading of a timestamp text.
\<close>

record sync_env =
  JSON_parse :: "string \<Rightarrow> string + json"
  ToString :: "json \<Rightarrow> string option"
  code_units :: "string \<Rightarrow> string list"
  param_text :: "json \<Rightarrow> string option"
  parse_timestamptz :: "string \<Rightarrow> int option"

text \<open>The loop of \<open>parseMemoryJSONL\<close>: a blank line is skipped, a malformed line throws.\<close>

fun parse_lines :: "(string \<Rightarrow> string + json) \<Rightarrow> string list \<Rightarrow> js_error + json list" where
  "parse_lines parse [] = Inr []"
| "parse_lines parse (line # lines) =
     (let trimmed = trim line in
      if trimmed = [] then parse_lines parse lines
      else (case parse trimmed of
              Inl msg \<Rightarrow> Inl (Error (''Invalid JSON in JSONL: '' @ msg))
            | Inr v \<Rightarrow>
                (case parse_lines parse lines of
                   Inl e \<Rightarrow> Inl e
                 | Inr vs \<Rightarrow> Inr (v # vs))))"

definition parseMemoryJSONL :: "sync_env \<Rightarrow> string \<Rightarrow> js_error + json list" where
  "parseMemoryJSONL env jsonl =
     (if jsonl = [] \<or> trim jsonl = [] then Inr []
      else parse_lines (JSON_parse env) (split_nl jsonl))"

text \<open>
  \<open>Object.assign(target, src)\<close> sets on the target the own enumerable properties of
  \<open>src\<close>: the keys of an object, the indices of an array or of a string, none for the
  other values. Setting the key \<open>__proto__\<close> runs the setter of \<open>Object.prototype\<close> and
  adds no property.
\<close>

fun assign_all :: "(string \<times> json) list \<Rightarrow> (string \<times> json) list \<Rightarrow> (string \<times> json) list" where
  "assign_all target [] = target"
| "assign_all target ((k, v) # kvs) =
     (if k = ''__proto__'' then assign_all target kvs
      else assign_all (obj_put target k v) kvs)"

definition object_assign :: "sync_env \<Rightarrow> (string \<times> json) list \<Rightarrow> json \<Rightarrow> (string \<times> json) list" where
  "object_assign env target src =
     (case src of
        JObject kvs \<Rightarrow> assign_all target kvs
      | JArray xs \<Rightarrow> assign_all target (map (\<lambda>(i, x). (nat_toString i, x)) (enumerate 0 xs))
      | JString s \<Rightarrow>
          assign_all target
            (map (\<lambda>(i, u). (nat_toString i, JString u)) (enumerate 0 (code_units env s)))
      | _ \<Rightarrow> target)"

text \<open>
  \<open>JSON.parse(x)\<close> on a value: a string is parsed as it is, another value is converted
  with \<open>ToString\<close> first. \<open>None\<close> when the conversion or the parse throws.
\<close>

definition parse_value :: "sync_env \<Rightarrow> json \<Rightarrow> json option" where
  "parse_value env x =
     (case (case x of JString s \<Rightarrow> Some s | _ \<Rightarrow> ToString env x) of
        None \<Rightarrow> None
      | Some s \<Rightarrow> (case JSON_parse env s of Inl msg \<Rightarrow> None | Inr parsed \<Rightarrow> Some parsed))"

text \<open>
  The metadata object that \<open>importSingleMemory\<close> builds, as the value that
  \<open>JSON.stringify\<close> hands to the \<open>jsonb\<close> column, or the \<open>TypeError\<close> of \<open>tags.split\<close> on
  tags that are truthy and not a string.
\<close>

definition build_metadata :: "sync_env \<Rightarrow> json \<Rightarrow> js_error + json" where
  "build_metadata env memoryExport =
     (let m0 = [];
          m1 = (if truthy (read_prop memoryExport ''metadata'') then
                  (case parse_value env (the (read_prop memoryExport ''metadata'')) of
                     Some parsed \<Rightarrow> object_assign env m0 parsed
                   | None \<Rightarrow> obj_put m0 ''raw'' (the (read_prop memoryExport ''metadata'')))
                else m0)
      in
      case (if truthy (read_prop memoryExport ''tags'') then
              (case read_prop memoryExport ''tags'' of
                 Some (JString t) \<Rightarrow>
                   Inr (obj_put m1 ''tags''
                          (JArray (map (\<lambda>x. JString (trim x)) (split_char CHR '','' t))))
               | _ \<Rightarrow> Inl (TypeError ''memoryExport.tags.split is not a function''))
            else Inr m1) of
        Inl e \<Rightarrow> Inl e
      | Inr m2 \<Rightarrow>
          Inr (JObject (case read_prop memoryExport ''confidence'' of
                          None \<Rightarrow> m2
                        | Some c \<Rightarrow> obj_put m2 ''confidence'' c)))"

text \<open>
  The parameters of the \<open>INSERT\<close>. \<open>undefined\<close> and \<open>null\<close> are sent as \<open>NULL\<close>, a string as
  it is, another value as the text the driver makes of it. \<open>content\<close> is \<open>NOT NULL\<close>;
  \<open>created_at\<close> is nullable and its text has to read as a timestamp.
\<close>

definition text_param :: "sync_env \<Rightarrow> json \<Rightarrow> db_error + string" where
  "text_param env x =
     (case x of
        JString s \<Rightarrow> Inr s
      | _ \<Rightarrow> (case param_text env x of
                None \<Rightarrow> Inl (QueryFailed WriteMemory)
              | Some s \<Rightarrow> Inr s))"

definition content_column :: "sync_env \<Rightarrow> json option \<Rightarrow> db_error + string" where
  "content_column env x =
     (if x = None \<or> x = Some JNull then Inl (NotNullViolation ''content'')
      else text_param env (the x))"

definition created_at_column :: "sync_env \<Rightarrow> json option \<Rightarrow> db_error + int option" where
  "created_at_column env x =
     (if x = None \<or> x = Some JNull then Inr None
      else (case text_param env (the x) of
              Inl e \<Rightarrow> Inl e
            | Inr s \<Rightarrow>
                (case parse_timestamptz env s of
                   None \<Rightarrow> Inl (InvalidTimestamp s)
                 | Some t \<Rightarrow> Inr (Some t))))"

text \<open>
  The \<open>INSERT\<close> of the import: \<open>id\<close> is the key and \<open>confidence\<close> takes its default.
\<close>

definition insert_memory ::
  "sync_env \<Rightarrow> (db_write \<Rightarrow> bool) \<Rightarrow> memory_db \<Rightarrow> string \<Rightarrow> json option \<Rightarrow> json \<Rightarrow> string
     \<Rightarrow> json option \<Rightarrow> db_error + memory_db" where
  "insert_memory env fails db i information md coll created_at =
     (if fails WriteMemory then Inl (QueryFailed WriteMemory)
      else if memories db i \<noteq> None then Inl (UniqueViolation i)
      else
        (case content_column env information of
           Inl e \<Rightarrow> Inl e
         | Inr c \<Rightarrow>
             (case created_at_column env created_at of
                Inl e \<Rightarrow> Inl e
              | Inr t \<Rightarrow>
                  Inr (db\<lparr>memories := (memories db)(i \<mapsto>
                         \<lparr>row_content = c, row_metadata = md, row_collection = coll,
                          row_created_at = t, row_confidence = 0.7\<rparr>)\<rparr>))))"

text \<open>
  \<open>importSingleMemory\<close> returns the database and the counters it leaves behind, and
  the error it throws, if any. The first read, \<open>memoryExport.id\<close>, throws on \<open>null\<close>;
  \<open>id.trim()\<close> throws on an id that is truthy and not a string. Both branches of
  \<open>skipExisting\<close> skip an existing row.
\<close>

definition importSingleMemory ::
  "sync_env \<Rightarrow> (db_write \<Rightarrow> bool) \<Rightarrow> memory_db \<Rightarrow> json \<Rightarrow> bool \<Rightarrow> MemoryImportResult
     \<Rightarrow> (memory_db \<times> MemoryImportResult) \<times> js_error option" where
  "importSingleMemory env fails db memoryExport skipExisting result =
     (if memoryExport = JNull then
        ((db, result), Some (TypeError ''Cannot read properties of null (reading 'id')''))
      else if \<not> truthy (read_prop memoryExport ''id'') then
        ((db, result), Some (Error ''Memory ID is required''))
      else
        (case read_prop memoryExport ''id'' of
           Some (JString i) \<Rightarrow>
             if trim i = [] then ((db, result), Some (Error ''Memory ID is required''))
             else if memories db i \<noteq> None then
               (if skipExisting then ((db, result\<lparr>skipped := skipped result + 1\<rparr>), None)
                else ((db, result\<lparr>skipped := skipped result + 1\<rparr>), None))
             else
               (case build_metadata env memoryExport of
                  Inl e \<Rightarrow> ((db, result), Some e)
                | Inr md \<Rightarrow>
                    (case insert_memory env fails db i (read_prop memoryExport ''information'') md
                            ''default'' (read_prop memoryExport ''created_at'') of
                       Inl e \<Rightarrow> ((db, result), Some (DatabaseError e))
                     | Inr db' \<Rightarrow> ((db', result\<lparr>created := created result + 1\<rparr>), None)))
         | _ \<Rightarrow> ((db, result), Some (TypeError ''memoryExport.id.trim is not a function''))))"

text \<open>
  The loop of \<open>importMemories\<close>. The handler of its \<open>catch\<close> reads \<open>memoryExport.id\<close>
  again: on \<open>null\<close> this read throws inside the handler, and the error leaves the loop
  and \<open>importMemories\<close>, after the records before it have been written.
\<close>

fun import_loop ::
  "sync_env \<Rightarrow> (db_write \<Rightarrow> bool) \<Rightarrow> bool \<Rightarrow> memory_db \<Rightarrow> MemoryImportResult \<Rightarrow> json list
     \<Rightarrow> memory_db \<times> (js_error + MemoryImportResult)" where
  "import_loop env fails skipExisting db result [] = (db, Inr result)"
| "import_loop env fails skipExisting db result (memoryExport # rest) =
     (case importSingleMemory env fails db memoryExport skipExisting result of
        ((db', result'), None) \<Rightarrow> import_loop env fails skipExisting db' result' rest
      | ((db', result'), Some err) \<Rightarrow>
          if memoryExport = JNull then
            (db', Inl (TypeError ''Cannot read properties of null (reading 'id')''))
          else
            import_loop env fails skipExisting db'
              (result'\<lparr>errors := errors result' @ [(read_prop memoryExport ''id'', err)]\<rparr>) rest)"

text \<open>
  \<open>importMemories\<close> returns the database it leaves behind and its result or the error
  it throws. \<open>parseMemoryJSONL\<close> is called before the loop and outside any \<open>try\<close>.
\<close>

definition importMemories ::
  "sync_env \<Rightarrow> (db_write \<Rightarrow> bool) \<Rightarrow> memory_db \<Rightarrow> string \<Rightarrow> bool option
     \<Rightarrow> memory_db \<times> (js_error + MemoryImportResult)" where
  "importMemories env fails db jsonl skipExisting_opt =
     (let skipExisting = (case skipExisting_opt of None \<Rightarrow> True | Some b \<Rightarrow> b) in
      case parseMemoryJSONL env jsonl of
        Inl e \<Rightarrow> (db, Inl e)
      | Inr vs \<Rightarrow>
          import_loop env fails skipExisting db
            \<lparr>created = 0, skipped = 0, errors = []\<rparr> vs)"

text \<open>
  The texts that \<open>parseMemoryJSONL\<close> hands to \<open>JSON.parse\<close>: the lines, trimmed, without
  the blank ones.
\<close>

definition trimmed_lines :: "string \<Rightarrow> string list" where
  "trimmed_lines jsonl = filter (\<lambda>l. l \<noteq> []) (map trim (split_nl jsonl))"

text \<open>
  A well-formed record and the row it stands for. The record has a string \<open>id\<close> that
  is not blank, \<open>tags\<close> that are falsy or a string, an \<open>information\<close> that is there, not
  \<open>null\<close> and accepted by the driver, and a \<open>created_at\<close> that is \<open>undefined\<close>, \<open>null\<close> or
  reads as a timestamp. Its row has the information as content, the metadata object
  built from \<open>metadata\<close>, \<open>tags\<close> and \<open>confidence\<close>, the collection \<open>default\<close> and the
  default confidence.
\<close>

definition record_row :: "sync_env \<Rightarrow> json \<Rightarrow> (string \<times> memory_row) option" where
  "record_row env v =
     (case read_prop v ''id'' of
        Some (JString i) \<Rightarrow>
          if trim i = [] then None
          else (case (build_metadata env v, content_column env (read_prop v ''information''),
                      created_at_column env (read_prop v ''created_at'')) of
                  (Inr md, Inr c, Inr t) \<Rightarrow>
                    Some (i, \<lparr>row_content = c, row_metadata = md, row_collection = ''default'',
                              row_created_at = t, row_confidence = 0.7\<rparr>)
                | _ \<Rightarrow> None)
      | _ \<Rightarrow> None)"

text \<open>The rows of the well-formed records of a batch, in the order of the batch.\<close>

definition batch_rows :: "sync_env \<Rightarrow> (db_write \<Rightarrow> bool) \<Rightarrow> json list \<Rightarrow> (string \<times> memory_row) list" where
  "batch_rows env fails vs = (if fails WriteMemory then [] else List.map_filter (record_row env) vs)"

text \<open>
  A parser for evaluating the import. It reads three lines: \<open>line_m1\<close>, a record with
  an id and an information, \<open>line_m2\<close>, a record with tags, a confidence and a metadata
  text that is not JSON, and \<open>null\<close>. It answers every other text with the message
  \<open>Unexpected token\<close>. The two records hold strings where the import converts a
  value, so the conversions of other values are not called and are left empty.
\<close>

definition line_m1 :: string where
  \<open>line_m1 = ''{"id":"m1","information":"x"}''\<close>

definition export_m1 :: json where
  "export_m1 = JObject [(''id'', JString ''m1''), (''information'', JString ''x'')]"

definition line_m2 :: string where
  \<open>line_m2 = ''{"id":"m2","information":"y","metadata":"note","tags":"a, b","confidence":0.5}''\<close>

definition export_m2 :: json where
  "export_m2 = JObject [(''id'', JString ''m2''), (''information'', JString ''y''),
                        (''metadata'', JString ''note''), (''tags'', JString ''a, b''),
                        (''confidence'', JNumber 0.5)]"

definition env_m1 :: sync_env where
  "env_m1 = \<lparr>JSON_parse = (\<lambda>s. if s = line_m1 then Inr export_m1
                               else if s = line_m2 then Inr export_m2
                               else if s = ''null'' then Inr JNull
                               else Inl ''Unexpected token''),
              ToString = (\<lambda>v. None),
              code_units = (\<lambda>s. map (\<lambda>c. [c]) s),
              param_text = (\<lambda>v. None),
              parse_timestamptz = (\<lambda>s. None)\<rparr>"

definition empty_db :: memory_db where
  "empty_db = \<lparr>memories = Map.empty, memory_embeddings = Map.empty, tx_snapshot = None\<rparr>"

definition row_m1 :: memory_row where
  "row_m1 = \<lparr>row_content = ''x'', row_metadata = JObject [], row_collection = ''default'',
             row_created_at = None, row_confidence = 0.7\<rparr>"

definition row_m2 :: memory_row where
  "row_m2 = \<lparr>row_content = ''y'',
             row_metadata = JObject [(''raw'', JString ''note''),
                                     (''tags'', JArray [JString ''a'', JString ''b'']),
                                     (''confidence'', JNumber 0.5)],
             row_collection = ''default'', row_created_at = None, row_confidence = 0.7\<rparr>"

text \<open>A batch of three lines: a valid record, a blank line and a malformed line.\<close>

definition mixed_jsonl :: string where
  "mixed_jsonl = line_m1 @ [CHR 0x0A] @ ''  '' @ [CHR 0x0A] @ ''{not json''"

text \<open>
  A batch without a malformed line: two valid records and the first of them again,
  with a blank line among them.
\<close>

definition good_jsonl :: string where
  "good_jsonl = line_m1 @ [CHR 0x0A] @ ''  '' @ [CHR 0x0A] @ line_m2 @ [CHR 0x0A] @ line_m1"

text \<open>A batch of a valid record, the line \<open>null\<close> and a second valid record.\<close>

definition null_jsonl :: string where
  "null_jsonl = line_m1 @ [CHR 0x0A] @ ''null'' @ [CHR 0x0A] @ line_m2"


section \<open>Bead event store (beads/store)\<close>

text \<open>
  A bead event: the three common fields that \<open>appendBeadEvent\<close> takes apart, and the
  remaining fields (\<open>bead_id\<close> and the fields of the event type) as a JSON object.
\<close>

record BeadEvent =
  ev_type :: string
  ev_project_key :: string
  ev_timestamp :: int
  ev_rest :: "(string \<times> json) list"

record StoredBeadEvent =
  stored_event :: BeadEvent
  stored_id :: nat
  stored_sequence :: nat

record event_row =
  row_id :: nat
  row_type :: string
  row_project_key :: string
  row_timestamp :: int
  row_sequence :: nat
  row_data :: json

text \<open>
  The database as \<open>appendBeadEvent\<close> sees it: the table \<open>events\<close>, the two counters
  from which the \<open>INSERT\<close> takes \<open>id\<close> and \<open>sequence\<close>, and the projection tables, of
  any type \<open>'p\<close>. Every statement is sent through \<open>db.query\<close> on its own: there is no
  \<open>BEGIN\<close>, \<open>COMMIT\<close> or \<open>ROLLBACK\<close> in this module, so a statement that has run stays.
\<close>

record 'p event_db =
  events :: "event_row list"
  id_seq :: nat
  sequence_seq :: nat
  projections :: 'p

definition insert_event :: "'p event_db \<Rightarrow> BeadEvent \<Rightarrow> 'p event_db \<times> nat \<times> nat" where
  "insert_event db event =
     (let i = id_seq db + 1;
          s = sequence_seq db + 1
      in (db\<lparr>events := events db @
                 [\<lparr>row_id = i, row_type = ev_type event, row_project_key = ev_project_key event,
                   row_timestamp = ev_timestamp event, row_sequence = s,
                   row_data = JObject (ev_rest event)\<rparr>],
              id_seq := i, sequence_seq := s\<rparr>, i, s))"

text \<open>What the \<open>INSERT ... RETURNING\<close> does: it throws, it returns no row, or it returns the row.\<close>

datatype insert_outcome = InsertThrows | InsertNoRow | InsertRow

text \<open>
  \<open>appendBeadEvent\<close>. \<open>updateProjections\<close> (beads/projections) is a parameter: it
  takes the database and the stored event and returns the database it leaves behind
  and the error it throws, if any. The result is the database left behind and the
  stored event or the thrown error.
\<close>

definition appendBeadEvent ::
  "('p event_db \<Rightarrow> StoredBeadEvent \<Rightarrow> 'p event_db \<times> js_error option) \<Rightarrow> insert_outcome
     \<Rightarrow> 'p event_db \<Rightarrow> BeadEvent \<Rightarrow> 'p event_db \<times> (js_error + StoredBeadEvent)" where
  "appendBeadEvent updateProjections outcome db event =
     (case outcome of
        InsertThrows \<Rightarrow> (db, Inl (DatabaseError (QueryFailed WriteEvent)))
      | InsertNoRow \<Rightarrow>
          (db, Inl (Error ''[BeadsStore] Failed to insert event - no row returned''))
      | InsertRow \<Rightarrow>
          (case insert_event db event of
             (db1, i, s) \<Rightarrow>
               (let stored = \<lparr>stored_event = event, stored_id = i, stored_sequence = s\<rparr>
                in case updateProjections db1 stored of
                     (db2, Some e) \<Rightarrow> (db2, Inl e)
                   | (db2, None) \<Rightarrow> (db2, Inr stored))))"

text \<open>
  For evaluation: the event of scenario S1 on an empty database whose projections are
  a list of bead titles, and a projection update that throws without writing.
\<close>

definition event_s1 :: BeadEvent where
  "event_s1 = \<lparr>ev_type = ''bead_created'', ev_project_key = ''/repo'', ev_timestamp = 1700000000000,
                ev_rest = [(''bead_id'', JString ''bd-1''), (''title'', JString ''t'')]\<rparr>"

definition no_events :: "string list event_db" where
  "no_events = \<lparr>events = [], id_seq = 0, sequence_seq = 0, projections = []\<rparr>"

definition failing_update ::
  "string list event_db \<Rightarrow> StoredBeadEvent \<Rightarrow> string list event_db \<times> js_error option" where
  "failing_update db ev = (db, Some (Error ''projection update failed''))"

definition title_update ::
  "string list event_db \<Rightarrow> StoredBeadEvent \<Rightarrow> string list event_db \<times> js_error option" where
  "title_update db ev = (db\<lparr>projections := projections db @ [ev_type (stored_event ev)]\<rparr>, None)"


section \<open>Trimming and blank lines\<close>

lemma leading_Some:
  assumes "leading toks s = Some w"
  shows "w \<in> set toks" "w \<noteq> []" "s = w @ drop (length w) s"
proof -
  from assms have w: "w \<in> set toks" "w \<noteq> []" "take (length w) s = w"
    by (auto simp: leading_def find_Some_iff in_set_conv_nth)
  then show "w \<in> set toks" "w \<noteq> []" by simp_all
  from w(3) show "s = w @ drop (length w) s"
    by (metis append_take_drop_id)
qed

lemma leading_None:
  "leading toks s = None \<Longrightarrow> w \<in> set toks \<Longrightarrow> w \<noteq> [] \<Longrightarrow> take (length w) s \<noteq> w"
  by (auto simp: leading_def find_None_iff)

lemma strip_leading_Nil [simp]: "strip_leading toks [] = []"
proof -
  have "leading toks [] = None" by (auto simp: leading_def find_None_iff)
  then show ?thesis by (simp add: strip_leading.simps)
qed

lemma strip_leading_made_of: "strip_leading toks s = [] \<Longrightarrow> made_of toks s"
proof (induction toks s rule: strip_leading.induct)
  case (1 toks s)
  show ?case
  proof (cases "leading toks s")
    case None
    with "1.prems" have "s = []" by (simp add: strip_leading.simps)
    then show ?thesis by (simp add: made_of.empty)
  next
    case (Some w)
    with "1.prems" have "strip_leading toks (drop (length w) s) = []"
      by (simp add: strip_leading.simps)
    with "1.IH" Some have "made_of toks (drop (length w) s)" by simp
    with leading_Some(1) [OF Some] have "made_of toks (w @ drop (length w) s)"
      by (rule made_of.token)
    with leading_Some(3) [OF Some] show ?thesis by simp
  qed
qed

lemma leading_strip_leading: "leading toks (strip_leading toks s) = None"
proof (induction toks s rule: strip_leading.induct)
  case (1 toks s)
  show ?case
  proof (cases "leading toks s")
    case None
    then show ?thesis by (simp add: strip_leading.simps)
  next
    case (Some w)
    with "1.IH" show ?thesis by (simp add: strip_leading.simps)
  qed
qed

lemma made_of_append: "made_of toks s \<Longrightarrow> made_of toks t \<Longrightarrow> made_of toks (s @ t)"
proof (induction rule: made_of.induct)
  case empty
  then show ?case by simp
next
  case (token w s)
  from token.IH [OF token.prems] have "made_of toks (s @ t)" .
  with token.hyps(1) have "made_of toks (w @ (s @ t))" by (rule made_of.token)
  then show ?case by simp
qed

lemma made_of_rev: "made_of (map rev toks) s \<Longrightarrow> made_of toks (rev s)"
proof (induction rule: made_of.induct)
  case empty
  then show ?case by (simp add: made_of.empty)
next
  case (token w s)
  then obtain v where v: "v \<in> set toks" "w = rev v" by auto
  have "made_of toks (v @ [])" using v(1) made_of.empty by (rule made_of.token)
  with token.IH have "made_of toks (rev s @ v)" by (simp add: made_of_append)
  with v show ?case by simp
qed

lemma made_of_leading:
  assumes "made_of toks s" and "s \<noteq> []"
  shows "leading toks s \<noteq> None"
  using assms
proof (induction rule: made_of.induct)
  case empty
  then show ?case by simp
next
  case (token w s)
  show ?case
  proof (cases "w = []")
    case True
    with token show ?thesis by simp
  next
    case False
    have "take (length w) (w @ s) = w" by simp
    with False token.hyps(1) show ?thesis
      using leading_None [of toks "w @ s" w] by blast
  qed
qed

lemma trim_empty_iff: "trim s = [] \<longleftrightarrow> strip_leading white_space s = []"
proof
  assume "strip_leading white_space s = []"
  then show "trim s = []" by (simp add: trim_def)
next
  assume t: "trim s = []"
  define u where "u = strip_leading white_space s"
  from t have "strip_leading (map rev white_space) (rev u) = []"
    by (simp add: trim_def u_def)
  then have "made_of (map rev white_space) (rev u)" by (rule strip_leading_made_of)
  then have m: "made_of white_space u" using made_of_rev by fastforce
  have "leading white_space u = None" unfolding u_def by (rule leading_strip_leading)
  with made_of_leading [OF m] show "strip_leading white_space s = []"
    unfolding u_def by blast
qed

lemma white_space_prefix_free: "prefix_free white_space"
  by code_simp

lemma made_of_strip_leading:
  assumes pf: "prefix_free toks"
  shows "made_of toks s \<Longrightarrow> strip_leading toks s = []"
proof (induction rule: made_of.induct)
  case empty
  then show ?case by simp
next
  case (token w s)
  show ?case
  proof (cases "w = []")
    case True
    with token show ?thesis by simp
  next
    case False
    have "made_of toks (w @ s)" using token.hyps by (rule made_of.token)
    moreover have "w @ s \<noteq> []" using False by simp
    ultimately obtain v where v: "leading toks (w @ s) = Some v"
      using made_of_leading by blast
    note l = leading_Some [OF v]
    from v have tv: "take (length v) (w @ s) = v"
      by (auto simp: leading_def find_Some_iff)
    have "v = w"
    proof (cases "length v \<le> length w")
      case True
      with tv have "take (length v) w = v" by simp
      with pf token.hyps(1) l(1,2) show ?thesis unfolding prefix_free_def by blast
    next
      case False
      then have "take (length w) v = w"
        using tv by (metis append_eq_conv_conj nat_le_linear take_all_iff take_append take_take min.absorb1)
      with pf token.hyps(1) l(1) \<open>w \<noteq> []\<close> show ?thesis unfolding prefix_free_def by blast
    qed
    with v token.IH show ?thesis by (simp add: strip_leading.simps)
  qed
qed

lemma split_char_not_Nil [simp]: "split_char sep s \<noteq> []"
  by (induction s) (auto split: list.splits)

lemma split_char_append:
  "sep \<notin> set w \<Longrightarrow>
     split_char sep (w @ s) = (w @ hd (split_char sep s)) # tl (split_char sep s)"
proof (induction w)
  case Nil
  then show ?case by simp
next
  case (Cons c w)
  then have "c \<noteq> sep" "sep \<notin> set w" by auto
  with Cons.IH show ?case by simp
qed

lemma white_space_newline:
  "\<forall>w\<in>set white_space. w = [CHR 0x0A] \<or> CHR 0x0A \<notin> set w"
  by code_simp

lemma made_of_lines:
  assumes "made_of white_space s" and "l \<in> set (split_nl s)"
  shows "made_of white_space l"
  using assms
proof (induction arbitrary: l rule: made_of.induct)
  case empty
  then show ?case by (simp add: split_nl_def made_of.empty)
next
  case (token w s)
  from white_space_newline token.hyps(1)
  have "w = [CHR 0x0A] \<or> CHR 0x0A \<notin> set w" by blast
  then show ?case
  proof
    assume "w = [CHR 0x0A]"
    with token.prems have "l = [] \<or> l \<in> set (split_nl s)" by (auto simp: split_nl_def)
    with token.IH show ?thesis by (auto simp: made_of.empty)
  next
    assume nl: "CHR 0x0A \<notin> set w"
    have ne: "split_nl s \<noteq> []" by (simp add: split_nl_def)
    from split_char_append [OF nl, of s] token.prems
    have "l = w @ hd (split_nl s) \<or> l \<in> set (tl (split_nl s))"
      by (auto simp: split_nl_def)
    then show ?thesis
    proof
      assume l: "l = w @ hd (split_nl s)"
      have "hd (split_nl s) \<in> set (split_nl s)" using ne by simp
      then have "made_of white_space (hd (split_nl s))" by (rule token.IH)
      with token.hyps(1) show ?thesis unfolding l by (rule made_of.token)
    next
      assume "l \<in> set (tl (split_nl s))"
      then have "l \<in> set (split_nl s)" using ne by (metis list.set_sel(2))
      then show ?thesis by (rule token.IH)
    qed
  qed
qed

lemma blank_text_blank_lines:
  assumes "trim s = []" and "l \<in> set (split_nl s)"
  shows "trim l = []"
proof -
  from assms(1) have "strip_leading white_space s = []" by (simp add: trim_empty_iff)
  then have "made_of white_space s" by (rule strip_leading_made_of)
  then have "made_of white_space l" using assms(2) by (rule made_of_lines)
  then have "strip_leading white_space l = []"
    by (rule made_of_strip_leading [OF white_space_prefix_free])
  then show ?thesis by (simp add: trim_empty_iff)
qed

lemma trim_Nil [simp]: "trim [] = []"
  by (simp add: trim_def)


section \<open>Staleness: results\<close>

text \<open>
  C7. \<open>checkStaleness\<close> answers stale exactly when the path has no row or the current
  mtime exceeds the recorded \<open>file_mtime\<close> by more than 300 seconds. A path without a
  row is stale; a path just recorded is fresh at the same mtime and still fresh at
  exactly \<open>file_mtime + 300\<close>; the bulk check gives the same answer per item.
\<close>

theorem checkStaleness_spec:
  "(checkStaleness tbl p cur
      \<longleftrightarrow> (tbl p = None \<or> (\<exists>s. tbl p = Some s \<and> cur - file_mtime s > 300)))
   \<and> checkStaleness (tbl(p := None)) p cur
   \<and> \<not> checkStaleness (recordIndexed tbl now p m c) p m
   \<and> \<not> checkStaleness (recordIndexed tbl now p m c) p (m + 300)
   \<and> checkStaleness (recordIndexed tbl now p m c) p (m + 301)
   \<and> map isStale (checkBulkStaleness tbl items)
       = map (\<lambda>(q, t). checkStaleness tbl q t) items"
proof -
  have bulk: "map isStale (checkBulkStaleness tbl items)
       = map (\<lambda>(q, t). checkStaleness tbl q t) items"
  proof (cases "items = []")
    case True
    then show ?thesis by (simp add: checkBulkStaleness_def)
  next
    case False
    have "isStale (case (tbl |` set (map fst items)) q of
                     None \<Rightarrow> \<lparr>res_path = q, isStale = True, indexState = None\<rparr>
                   | Some state \<Rightarrow>
                       \<lparr>res_path = q,
                        isStale = (t - file_mtime state > GRACE_PERIOD_SECONDS),
                        indexState = Some state\<rparr>) = checkStaleness tbl q t"
      if "(q, t) \<in> set items" for q t
    proof -
      from that have "q \<in> set (map fst items)" by force
      then have "(tbl |` set (map fst items)) q = tbl q" by simp
      then show ?thesis
        by (simp add: checkStaleness_def getIndexState_def Let_def split: option.splits)
    qed
    with False show ?thesis
      by (auto simp: checkBulkStaleness_def Let_def)
  qed
  show ?thesis
    unfolding bulk
    by (auto simp: checkStaleness_def getIndexState_def recordIndexed_def
        GRACE_PERIOD_SECONDS_def Let_def split: option.splits)
qed


section \<open>Session viewer: results\<close>






lemma session_lines_seven:
  "session_lines seven_lines = [''l1'', ''l2'', ''l3'', ''l4'', ''l5'', ''l6'', ''l7'']"
  by code_simp



text \<open>
  The type of \<open>context\<close> also admits a negative number; the window is then empty: on
  the seven-line file, line 4 with context \<open>-1\<close> gives no content line.
\<close>

lemma view_negative_context:
  "viewSessionLine_output [''f'' \<mapsto> seven_lines] ''f'' (Some 4) (Some (- 1))
     = Inr [''File: f'', ''Line: 4'', rule_line, rule_line]"
  by (simp add: viewSessionLine_output_def session_lines_seven Let_def
      int_toString_def digit_char_def)



section \<open>Recursive queries: termination and result\<close>

lemma cte_closure_empty: "cte_closure succ dp maxd {} = {}"
proof -
  have "r \<in> cte_closure succ dp maxd {} \<Longrightarrow> False" for r
    by (induction rule: cte_closure.induct) auto
  then show ?thesis by auto
qed

lemma cte_closure_unfold:
  "cte_closure succ dp maxd W
     = W \<union> cte_closure succ dp maxd {r. \<exists>p\<in>W. dp p < maxd \<and> r \<in> succ p}"
  (is "?L = W \<union> ?R")
proof (intro set_eqI iffI)
  fix r assume "r \<in> ?L"
  then show "r \<in> W \<union> ?R"
  proof (induction rule: cte_closure.induct)
    case (base r)
    then show ?case by simp
  next
    case (step p r)
    from step.IH show ?case
    proof
      assume "p \<in> W"
      with step.hyps have "r \<in> {r. \<exists>p\<in>W. dp p < maxd \<and> r \<in> succ p}" by blast
      then show ?thesis by (blast intro: cte_closure.base)
    next
      assume "p \<in> ?R"
      with step.hyps show ?thesis by (blast intro: cte_closure.step)
    qed
  qed
next
  fix r assume "r \<in> W \<union> ?R"
  then show "r \<in> ?L"
  proof
    assume "r \<in> W" then show ?thesis by (rule cte_closure.base)
  next
    assume "r \<in> ?R"
    then show ?thesis
    proof (induction rule: cte_closure.induct)
      case (base r)
      then show ?case by (blast intro: cte_closure.base cte_closure.step)
    next
      case (step p r)
      then show ?case by (blast intro: cte_closure.step)
    qed
  qed
qed

lemma with_recursive_closure:
  fixes dp :: "'r \<Rightarrow> nat" and succ :: "'r \<Rightarrow> 'r set"
  assumes step: "\<And>work. set (step work) = {r. \<exists>p\<in>set work. dp p < maxd \<and> r \<in> succ p}"
    and dp: "\<And>p r. r \<in> succ p \<Longrightarrow> dp r = Suc (dp p)"
    and work: "\<forall>r\<in>set work. dp r = n"
    and result: "\<forall>r\<in>set result. dp r \<le> n"
    and sub: "set work \<subseteq> set result"
  shows "\<exists>res. with_recursive step result work = Some res
           \<and> set res = set result \<union> cte_closure succ dp maxd (set work)"
  using work result sub
proof (induction "Suc maxd - n" arbitrary: n work result rule: less_induct)
  case less
  show ?case
  proof (cases "work = []")
    case True
    then show ?thesis
      by (subst with_recursive.simps) (simp add: cte_closure_empty)
  next
    case False
    define N where "N = {r. \<exists>p\<in>set work. dp p < maxd \<and> r \<in> succ p}"
    define new where "new = filter (\<lambda>r. r \<notin> set result) (remdups (step work))"
    have dpN: "dp r = Suc n" if "r \<in> N" for r
      using that less.prems(1) dp by (auto simp: N_def)
    have "set new = N - set result" by (auto simp: new_def step N_def)
    moreover have "N \<inter> set result = {}"
      using dpN less.prems(2) by fastforce
    ultimately have new: "set new = N" by auto
    have unf: "with_recursive step result work = with_recursive step (result @ new) new"
      using False by (subst with_recursive.simps) (simp add: new_def Let_def)
    have clo: "cte_closure succ dp maxd (set work) = set work \<union> cte_closure succ dp maxd N"
      unfolding N_def by (rule cte_closure_unfold)
    show ?thesis
    proof (cases "n < maxd")
      case True
      then have m: "Suc maxd - Suc n < Suc maxd - n" by simp
      have p1: "\<forall>r\<in>set new. dp r = Suc n" using new dpN by simp
      have p2: "\<forall>r\<in>set (result @ new). dp r \<le> Suc n"
        using new dpN less.prems(2) by fastforce
      have p3: "set new \<subseteq> set (result @ new)" by simp
      from less.hyps [OF m p1 p2 p3]
      obtain res where "with_recursive step (result @ new) new = Some res"
        and "set res = set (result @ new) \<union> cte_closure succ dp maxd (set new)"
        by blast
      moreover have "N \<subseteq> cte_closure succ dp maxd N"
        by (auto intro: cte_closure.base)
      ultimately show ?thesis
        using unf clo new less.prems(3) by auto
    next
      case False
      then have "N = {}" using less.prems(1) by (auto simp: N_def)
      with new have "new = []" by simp
      then have "with_recursive step result work = Some result"
        unfolding unf by (subst with_recursive.simps) simp
      then show ?thesis
        using clo \<open>N = {}\<close> less.prems(3) by (auto simp: cte_closure_empty)
    qed
  qed
qed

lemma recursive_cte_closure:
  fixes dp :: "'r \<Rightarrow> nat" and succ :: "'r \<Rightarrow> 'r set"
  assumes step: "\<And>work. set (step work) = {r. \<exists>p\<in>set work. dp p < maxd \<and> r \<in> succ p}"
    and dp: "\<And>p r. r \<in> succ p \<Longrightarrow> dp r = Suc (dp p)"
    and base: "\<forall>r\<in>set base. dp r = n"
  shows "\<exists>res. recursive_cte base step = Some res
           \<and> set res = cte_closure succ dp maxd (set base)"
proof -
  have "\<exists>res. with_recursive step (remdups base) (remdups base) = Some res
           \<and> set res = set (remdups base) \<union> cte_closure succ dp maxd (set (remdups base))"
    by (rule with_recursive_closure [OF step dp, where n = n]) (use base in auto)
  then show ?thesis
    by (auto simp: recursive_cte_def Let_def intro: cte_closure.base)
qed


section \<open>Cycle check: the rows of \<open>paths\<close>\<close>

lemma paths_step_set:
  "set (paths_step deps maxd work)
     = {r. \<exists>p\<in>set work. snd (snd p) < maxd \<and> r \<in> paths_succ deps p}"
  apply (auto simp: paths_step_def paths_succ_def)
  subgoal for x ab ba by (rule bexI [of _ "(ab, bead_id x, ba)"]) auto
  subgoal for ab ba bd by (rule bexI [of _ bd]) auto
  done

lemma paths_closure:
  assumes "0 < maxd"
  shows "cte_closure (paths_succ deps) (\<lambda>r. snd (snd r)) maxd (set (paths_base deps b))
     = {r. \<exists>x y n. r = (x, y, Suc n) \<and> n < maxd
            \<and> (b, x) \<in> dep_edges deps ^^ n \<and> (x, y) \<in> dep_edges deps}"
  (is "?C = ?S")
proof (intro set_eqI iffI)
  fix r assume "r \<in> ?C"
  then show "r \<in> ?S"
  proof (induction rule: cte_closure.induct)
    case (base r)
    then obtain d where d: "d \<in> set deps" "bead_id d = b" "r = (bead_id d, depends_on_id d, 1)"
      unfolding paths_base_def by auto
    then have e: "(b, depends_on_id d) \<in> dep_edges deps"
      unfolding dep_edges_def by blast
    have z: "(b, b) \<in> dep_edges deps ^^ 0" by simp
    from d have r: "r = (b, depends_on_id d, Suc 0)" by simp
    show ?case
      unfolding mem_Collect_eq using r assms z e by blast
  next
    case (step p r)
    from step.IH obtain x y n where p: "p = (x, y, Suc n)" and n: "n < maxd"
      and bx: "(b, x) \<in> dep_edges deps ^^ n" and xy: "(x, y) \<in> dep_edges deps"
      unfolding mem_Collect_eq by blast
    from step.hyps(3) obtain bd where bd: "bd \<in> set deps" "bead_id bd = fst (snd p)"
      "r = (bead_id bd, depends_on_id bd, Suc (snd (snd p)))"
      unfolding paths_succ_def by blast
    from bd p have r: "r = (y, depends_on_id bd, Suc (Suc n))" by simp
    from bd p have yz: "(y, depends_on_id bd) \<in> dep_edges deps"
      unfolding dep_edges_def by force
    have by': "(b, y) \<in> dep_edges deps ^^ Suc n" using bx xy by (rule relpow_Suc_I)
    have sn: "Suc n < maxd" using step.hyps(2) p by simp
    show ?case
      unfolding mem_Collect_eq using r sn by' yz by blast
  qed
next
  fix r assume "r \<in> ?S"
  then obtain x y n where r: "r = (x, y, Suc n)" and n: "n < maxd"
    and bx: "(b, x) \<in> dep_edges deps ^^ n" and xy: "(x, y) \<in> dep_edges deps"
    unfolding mem_Collect_eq by blast
  have "(x, y, Suc n) \<in> ?C" using n bx xy
  proof (induction n arbitrary: x y)
    case 0
    from 0(2) have "x = b" by simp
    moreover from 0(3) obtain d where "d \<in> set deps" "bead_id d = x" "depends_on_id d = y"
      unfolding dep_edges_def by blast
    ultimately have "(x, y, Suc 0) \<in> set (paths_base deps b)"
      unfolding paths_base_def by force
    then show ?case by (rule cte_closure.base)
  next
    case (Suc n)
    from Suc.prems(2) obtain w where bw: "(b, w) \<in> dep_edges deps ^^ n"
      and wx: "(w, x) \<in> dep_edges deps"
      by (rule relpow_Suc_E)
    from Suc.prems(1) have "n < maxd" by simp
    then have prev: "(w, x, Suc n) \<in> ?C" using bw wx by (rule Suc.IH)
    from Suc.prems(3) obtain d where "d \<in> set deps" "bead_id d = x" "depends_on_id d = y"
      unfolding dep_edges_def by blast
    then have succ: "(x, y, Suc (Suc n)) \<in> paths_succ deps (w, x, Suc n)"
      unfolding paths_succ_def by force
    have "snd (snd (w, x, Suc n)) < maxd" using Suc.prems(1) by simp
    with prev show ?case using succ by (rule cte_closure.step)
  qed
  with r show "r \<in> ?C" by simp
qed

lemma paths_rows:
  "\<exists>res. recursive_cte (paths_base deps b) (paths_step deps MAX_DEPENDENCY_DEPTH) = Some res
     \<and> set res = {r. \<exists>x y n. r = (x, y, Suc n) \<and> n < MAX_DEPENDENCY_DEPTH
            \<and> (b, x) \<in> dep_edges deps ^^ n \<and> (x, y) \<in> dep_edges deps}"
proof -
  have pos: "0 < MAX_DEPENDENCY_DEPTH" by (simp add: MAX_DEPENDENCY_DEPTH_def)
  have "\<exists>res. recursive_cte (paths_base deps b) (paths_step deps MAX_DEPENDENCY_DEPTH) = Some res
     \<and> set res = cte_closure (paths_succ deps) (\<lambda>r. snd (snd r)) MAX_DEPENDENCY_DEPTH
                    (set (paths_base deps b))"
    by (rule recursive_cte_closure [where n = 1])
       (auto simp: paths_step_set paths_succ_def paths_base_def)
  then show ?thesis by (simp add: paths_closure [OF pos])
qed

lemma wouldCreateCycle_relpow:
  "wouldCreateCycle deps a b
     = Some (\<exists>n. 0 < n \<and> n \<le> 100 \<and> (b, a) \<in> dep_edges deps ^^ n)"
proof -
  from paths_rows [of deps b] obtain res where
    res: "recursive_cte (paths_base deps b) (paths_step deps MAX_DEPENDENCY_DEPTH) = Some res"
    and rows: "set res = {r. \<exists>x y n. r = (x, y, Suc n) \<and> n < MAX_DEPENDENCY_DEPTH
            \<and> (b, x) \<in> dep_edges deps ^^ n \<and> (x, y) \<in> dep_edges deps}"
    by blast
  have "(\<exists>(p_bead, p_dep, depth)\<in>set res. p_dep = a)
          \<longleftrightarrow> (\<exists>x n. n < 100 \<and> (b, x) \<in> dep_edges deps ^^ n \<and> (x, a) \<in> dep_edges deps)"
    unfolding rows by (auto simp: MAX_DEPENDENCY_DEPTH_def)
  also have "\<dots> \<longleftrightarrow> (\<exists>n. 0 < n \<and> n \<le> 100 \<and> (b, a) \<in> dep_edges deps ^^ n)"
  proof
    assume "\<exists>x n. n < 100 \<and> (b, x) \<in> dep_edges deps ^^ n \<and> (x, a) \<in> dep_edges deps"
    then obtain x n where "n < 100" "(b, x) \<in> dep_edges deps ^^ n" "(x, a) \<in> dep_edges deps"
      by blast
    then have "0 < Suc n \<and> Suc n \<le> 100 \<and> (b, a) \<in> dep_edges deps ^^ Suc n" by auto
    then show "\<exists>n. 0 < n \<and> n \<le> 100 \<and> (b, a) \<in> dep_edges deps ^^ n" by blast
  next
    assume "\<exists>n. 0 < n \<and> n \<le> 100 \<and> (b, a) \<in> dep_edges deps ^^ n"
    then obtain n where n: "0 < n" "n \<le> 100" "(b, a) \<in> dep_edges deps ^^ n" by blast
    then obtain m where m: "n = Suc m" by (cases n) auto
    with n obtain x where "(b, x) \<in> dep_edges deps ^^ m" "(x, a) \<in> dep_edges deps" by auto
    with n m show "\<exists>x n. n < 100 \<and> (b, x) \<in> dep_edges deps ^^ n \<and> (x, a) \<in> dep_edges deps"
      by (intro exI [of _ x] exI [of _ m]) simp
  qed
  finally show ?thesis by (simp add: wouldCreateCycle_def res)
qed


section \<open>Open blockers: the rows of \<open>blockers\<close>\<close>

lemma blockers_step_set:
  "set (blockers_step deps maxd work)
     = {r. \<exists>p\<in>set work. snd p < maxd \<and> r \<in> blockers_succ deps p}"
  apply (auto simp: blockers_step_def blockers_succ_def)
  subgoal for x ba by (rule bexI [of _ "(bead_id x, ba)"]) auto
  done

lemma blockers_closure:
  assumes "0 < maxd"
  shows "cte_closure (blockers_succ deps) snd maxd (set (blockers_base deps b))
     = {r. \<exists>y n. r = (y, Suc n) \<and> n < maxd \<and> (b, y) \<in> blocks_edges deps ^^ Suc n}"
  (is "?C = ?S")
proof (intro set_eqI iffI)
  fix r assume "r \<in> ?C"
  then show "r \<in> ?S"
  proof (induction rule: cte_closure.induct)
    case (base r)
    then obtain d where d: "d \<in> set deps" "bead_id d = b" "relationship d = Blocks"
      "r = (depends_on_id d, 1)"
      unfolding blockers_base_def by auto
    then have "(b, depends_on_id d) \<in> blocks_edges deps"
      unfolding blocks_edges_def by blast
    then have e: "(b, depends_on_id d) \<in> blocks_edges deps ^^ Suc 0" by simp
    from d have r: "r = (depends_on_id d, Suc 0)" by simp
    show ?case
      unfolding mem_Collect_eq using r assms e by blast
  next
    case (step p r)
    from step.IH obtain y n where p: "p = (y, Suc n)" and n: "n < maxd"
      and by': "(b, y) \<in> blocks_edges deps ^^ Suc n"
      unfolding mem_Collect_eq by blast
    from step.hyps(3) obtain bd where bd: "bd \<in> set deps" "bead_id bd = fst p"
      "relationship bd = Blocks" "r = (depends_on_id bd, Suc (snd p))"
      unfolding blockers_succ_def by blast
    from bd p have r: "r = (depends_on_id bd, Suc (Suc n))" by simp
    from bd p have yz: "(y, depends_on_id bd) \<in> blocks_edges deps"
      unfolding blocks_edges_def by force
    have bz: "(b, depends_on_id bd) \<in> blocks_edges deps ^^ Suc (Suc n)"
      using by' yz by (rule relpow_Suc_I)
    have sn: "Suc n < maxd" using step.hyps(2) p by simp
    show ?case
      unfolding mem_Collect_eq using r sn bz by blast
  qed
next
  fix r assume "r \<in> ?S"
  then obtain y n where r: "r = (y, Suc n)" and n: "n < maxd"
    and by': "(b, y) \<in> blocks_edges deps ^^ Suc n"
    unfolding mem_Collect_eq by blast
  have "(y, Suc n) \<in> ?C" using n by'
  proof (induction n arbitrary: y)
    case 0
    from 0(2) have "(b, y) \<in> blocks_edges deps" by simp
    then obtain d where "d \<in> set deps" "bead_id d = b" "depends_on_id d = y"
      "relationship d = Blocks"
      unfolding blocks_edges_def by blast
    then have "(y, Suc 0) \<in> set (blockers_base deps b)"
      unfolding blockers_base_def by force
    then show ?case by (rule cte_closure.base)
  next
    case (Suc n)
    from Suc.prems(2) obtain w where bw: "(b, w) \<in> blocks_edges deps ^^ Suc n"
      and wy: "(w, y) \<in> blocks_edges deps"
      by (rule relpow_Suc_E)
    from Suc.prems(1) have "n < maxd" by simp
    then have prev: "(w, Suc n) \<in> ?C" using bw by (rule Suc.IH)
    from wy obtain d where "d \<in> set deps" "bead_id d = w" "depends_on_id d = y"
      "relationship d = Blocks"
      unfolding blocks_edges_def by blast
    then have succ: "(y, Suc (Suc n)) \<in> blockers_succ deps (w, Suc n)"
      unfolding blockers_succ_def by force
    have "snd (w, Suc n) < maxd" using Suc.prems(1) by simp
    with prev show ?case using succ by (rule cte_closure.step)
  qed
  with r show "r \<in> ?C" by simp
qed

lemma blockers_rows:
  "\<exists>res. recursive_cte (blockers_base deps b) (blockers_step deps MAX_DEPENDENCY_DEPTH) = Some res
     \<and> set res = {r. \<exists>y n. r = (y, Suc n) \<and> n < MAX_DEPENDENCY_DEPTH
            \<and> (b, y) \<in> blocks_edges deps ^^ Suc n}"
proof -
  have pos: "0 < MAX_DEPENDENCY_DEPTH" by (simp add: MAX_DEPENDENCY_DEPTH_def)
  have "\<exists>res. recursive_cte (blockers_base deps b) (blockers_step deps MAX_DEPENDENCY_DEPTH) = Some res
     \<and> set res = cte_closure (blockers_succ deps) snd MAX_DEPENDENCY_DEPTH
                    (set (blockers_base deps b))"
    by (rule recursive_cte_closure [where n = 1])
       (auto simp: blockers_step_set blockers_succ_def blockers_base_def)
  then show ?thesis by (simp add: blockers_closure [OF pos])
qed

text \<open>The open blockers of a bead, as a set: what a fresh computation returns.\<close>

lemma getOpenBlockers_set:
  "\<exists>bs. getOpenBlockers db pk x = Some bs \<and> distinct bs
     \<and> set bs = {y. open_bead db pk y
                    \<and> (\<exists>n. 0 < n \<and> n \<le> 100 \<and> (x, y) \<in> blocks_edges (bead_dependencies db) ^^ n)}"
proof -
  from blockers_rows [of "bead_dependencies db" x] obtain res where
    res: "recursive_cte (blockers_base (bead_dependencies db) x)
            (blockers_step (bead_dependencies db) MAX_DEPENDENCY_DEPTH) = Some res"
    and rows: "set res = {r. \<exists>y n. r = (y, Suc n) \<and> n < MAX_DEPENDENCY_DEPTH
            \<and> (x, y) \<in> blocks_edges (bead_dependencies db) ^^ Suc n}"
    by blast
  define bs where "bs = remdups [blocker_id. (blocker_id, depth) \<leftarrow> res, open_bead db pk blocker_id]"
  have g: "getOpenBlockers db pk x = Some bs"
    by (simp add: getOpenBlockers_def res bs_def)
  have "set bs = {y. open_bead db pk y \<and> (\<exists>d. (y, d) \<in> set res)}"
    by (auto simp: bs_def)
  also have "\<dots> = {y. open_bead db pk y
                    \<and> (\<exists>n. 0 < n \<and> n \<le> 100 \<and> (x, y) \<in> blocks_edges (bead_dependencies db) ^^ n)}"
  proof -
    have "(\<exists>d. (y, d) \<in> set res)
       \<longleftrightarrow> (\<exists>n. 0 < n \<and> n \<le> 100 \<and> (x, y) \<in> blocks_edges (bead_dependencies db) ^^ n)" for y
    proof
      assume "\<exists>d. (y, d) \<in> set res"
      then obtain n where "n < 100" "(x, y) \<in> blocks_edges (bead_dependencies db) ^^ Suc n"
        unfolding rows MAX_DEPENDENCY_DEPTH_def by blast
      then have "0 < Suc n \<and> Suc n \<le> 100 \<and> (x, y) \<in> blocks_edges (bead_dependencies db) ^^ Suc n"
        by simp
      then show "\<exists>n. 0 < n \<and> n \<le> 100 \<and> (x, y) \<in> blocks_edges (bead_dependencies db) ^^ n"
        by blast
    next
      assume "\<exists>n. 0 < n \<and> n \<le> 100 \<and> (x, y) \<in> blocks_edges (bead_dependencies db) ^^ n"
      then obtain n where n: "0 < n" "n \<le> 100"
        "(x, y) \<in> blocks_edges (bead_dependencies db) ^^ n" by blast
      then obtain m where m: "n = Suc m" by (cases n) auto
      with n have "(y, Suc m) \<in> set res"
        unfolding rows MAX_DEPENDENCY_DEPTH_def by simp
      then show "\<exists>d. (y, d) \<in> set res" by blast
    qed
    then show ?thesis by simp
  qed
  finally show ?thesis using g by (auto simp: bs_def)
qed


section \<open>Cycle check and the acyclicity of \<open>blocks\<close>: results\<close>

text \<open>
  C3 (amended). \<open>wouldCreateCycle a b\<close> always returns; it walks the rows of
  \<open>bead_dependencies\<close> from \<open>b\<close> whatever their relationship, and answers true exactly
  when \<open>a\<close> is reached from \<open>b\<close> by a path of at least one and at most 100 edges.
\<close>

theorem wouldCreateCycle_reach:
  "wouldCreateCycle deps a b
     = Some (\<exists>n. 0 < n \<and> n \<le> MAX_DEPENDENCY_DEPTH \<and> (b, a) \<in> dep_edges deps ^^ n)"
  by (simp add: wouldCreateCycle_relpow MAX_DEPENDENCY_DEPTH_def)

text \<open>
  C3 as stated: a pair joined by a single \<open>related\<close> row, with no \<open>blocks\<close> row in the
  table, is reported as a cycle.
\<close>

theorem wouldCreateCycle_related_counterexample:
  "wouldCreateCycle
     [\<lparr>bead_id = ''b'', depends_on_id = ''a'', relationship = Related\<rparr>] ''a'' ''b'' = Some True
   \<and> blocks_edges [\<lparr>bead_id = ''b'', depends_on_id = ''a'', relationship = Related\<rparr>] = {}"
proof
  show "wouldCreateCycle
     [\<lparr>bead_id = ''b'', depends_on_id = ''a'', relationship = Related\<rparr>] ''a'' ''b'' = Some True"
    by code_simp
  show "blocks_edges [\<lparr>bead_id = ''b'', depends_on_id = ''a'', relationship = Related\<rparr>] = {}"
    by (simp add: blocks_edges_def)
qed



lemma blocks_edges_append:
  "blocks_edges (deps @ [d])
     = (if relationship d = Blocks then insert (bead_id d, depends_on_id d) (blocks_edges deps)
        else blocks_edges deps)"
  by (auto simp: blocks_edges_def)

lemma relpow_two_more:
  fixes R :: "('a \<times> 'a) set"
  shows "(\<exists>x y z. (b, x) \<in> R ^^ n \<and> (x, y) \<in> R \<and> (y, z) \<in> R)
           \<longleftrightarrow> (\<exists>z. (b, z) \<in> R ^^ Suc (Suc n))"
  by (simp only: relpow.simps) blast

lemma depth_overflow_relpow:
  "depth_overflow deps b = Some (\<exists>z. (b, z) \<in> dep_edges deps ^^ 101)"
proof -
  from paths_rows [of deps b] obtain res where
    res: "recursive_cte (paths_base deps b) (paths_step deps MAX_DEPENDENCY_DEPTH) = Some res"
    and rows: "set res = {r. \<exists>x y n. r = (x, y, Suc n) \<and> n < MAX_DEPENDENCY_DEPTH
            \<and> (b, x) \<in> dep_edges deps ^^ n \<and> (x, y) \<in> dep_edges deps}"
    by blast
  have succ: "(\<exists>bd\<in>set deps. bead_id bd = y) \<longleftrightarrow> (\<exists>z. (y, z) \<in> dep_edges deps)" for y
    unfolding dep_edges_def by auto
  have n99: "n < MAX_DEPENDENCY_DEPTH \<and> Suc n = MAX_DEPENDENCY_DEPTH \<longleftrightarrow> n = 99" for n
    by (auto simp: MAX_DEPENDENCY_DEPTH_def)
  have "(\<exists>(p_bead, p_dep, depth)\<in>set res.
            depth = MAX_DEPENDENCY_DEPTH \<and> (\<exists>bd\<in>set deps. bead_id bd = p_dep))
          \<longleftrightarrow> (\<exists>x y z n. (n < MAX_DEPENDENCY_DEPTH \<and> Suc n = MAX_DEPENDENCY_DEPTH)
                 \<and> (b, x) \<in> dep_edges deps ^^ n \<and> (x, y) \<in> dep_edges deps
                 \<and> (y, z) \<in> dep_edges deps)"
    unfolding rows succ by blast
  also have "\<dots> \<longleftrightarrow> (\<exists>x y z. (b, x) \<in> dep_edges deps ^^ 99 \<and> (x, y) \<in> dep_edges deps
                        \<and> (y, z) \<in> dep_edges deps)"
    unfolding n99 by blast
  also have "\<dots> \<longleftrightarrow> (\<exists>z. (b, z) \<in> dep_edges deps ^^ Suc (Suc 99))"
    by (rule relpow_two_more)
  also have "Suc (Suc 99) = (101 :: nat)" by simp
  finally show ?thesis by (simp add: depth_overflow_def res)
qed


lemma add_dependency_cases:
  "add_dependency deps d = Some (Inl Cycle) \<and>
      (\<exists>n. 0 < n \<and> n \<le> 100 \<and> (depends_on_id d, bead_id d) \<in> dep_edges deps ^^ n)
   \<or> add_dependency deps d = Some (Inl GraphTooDeep) \<and>
      (\<exists>z. (depends_on_id d, z) \<in> dep_edges deps ^^ 101)
   \<or> add_dependency deps d = Some (Inr (deps @ [d])) \<and>
      \<not> (\<exists>n. 0 < n \<and> n \<le> 100 \<and> (depends_on_id d, bead_id d) \<in> dep_edges deps ^^ n) \<and>
      \<not> (\<exists>z. (depends_on_id d, z) \<in> dep_edges deps ^^ 101)"
proof -
  define c where "c = (\<exists>n. 0 < n \<and> n \<le> 100 \<and> (depends_on_id d, bead_id d) \<in> dep_edges deps ^^ n)"
  define ov where "ov = (\<exists>z. (depends_on_id d, z) \<in> dep_edges deps ^^ 101)"
  have "wouldCreateCycle deps (bead_id d) (depends_on_id d) = Some c"
    unfolding c_def by (rule wouldCreateCycle_relpow)
  moreover have "depth_overflow deps (depends_on_id d) = Some ov"
    unfolding ov_def by (rule depth_overflow_relpow)
  ultimately have "add_dependency deps d = Some (Inl Cycle) \<and> c
             \<or> add_dependency deps d = Some (Inl GraphTooDeep) \<and> ov
             \<or> add_dependency deps d = Some (Inr (deps @ [d])) \<and> \<not> c \<and> \<not> ov"
    by (cases c; cases ov) (simp_all add: add_dependency_def)
  then show ?thesis unfolding c_def ov_def .
qed






section \<open>Blocked-bead cache invalidation: results\<close>

lemma getOpenBlockers_frame:
  "beads db' = beads db \<Longrightarrow> bead_dependencies db' = bead_dependencies db
     \<Longrightarrow> getOpenBlockers db' pk y = getOpenBlockers db pk y"
  by (simp add: getOpenBlockers_def open_bead_def)

lemma fresh_blockers_frame:
  "beads db' = beads db \<Longrightarrow> bead_dependencies db' = bead_dependencies db
     \<Longrightarrow> fresh_blockers db' pk y = fresh_blockers db pk y"
  by (simp add: fresh_blockers_def getOpenBlockers_frame [of db' db])

lemma rebuildBeadBlockedCache_result:
  "\<exists>db'. rebuildBeadBlockedCache db now pk y = Some db'
     \<and> beads db' = beads db \<and> bead_dependencies db' = bead_dependencies db
     \<and> map_option blocker_ids (blocked_beads_cache db' y) = fresh_blockers db pk y
     \<and> (\<forall>z. z \<noteq> y \<longrightarrow> blocked_beads_cache db' z = blocked_beads_cache db z)"
proof -
  from getOpenBlockers_set [of db pk y] obtain bs where "getOpenBlockers db pk y = Some bs"
    by blast
  then show ?thesis
    by (simp add: rebuildBeadBlockedCache_def fresh_blockers_def)
qed

lemma rebuild_rows_result:
  "\<exists>db'. rebuild_rows db clock i pk rows = Some db'
     \<and> beads db' = beads db \<and> bead_dependencies db' = bead_dependencies db
     \<and> (\<forall>y\<in>set rows. map_option blocker_ids (blocked_beads_cache db' y) = fresh_blockers db pk y)
     \<and> (\<forall>z. z \<notin> set rows \<longrightarrow> blocked_beads_cache db' z = blocked_beads_cache db z)"
proof (induction rows arbitrary: db i)
  case Nil
  then show ?case by simp
next
  case (Cons r rows)
  from rebuildBeadBlockedCache_result [of db "clock i" pk r] obtain db1 where
    r1: "rebuildBeadBlockedCache db (clock i) pk r = Some db1"
    and f1: "beads db1 = beads db" "bead_dependencies db1 = bead_dependencies db"
    and c1: "map_option blocker_ids (blocked_beads_cache db1 r) = fresh_blockers db pk r"
    and o1: "\<forall>z. z \<noteq> r \<longrightarrow> blocked_beads_cache db1 z = blocked_beads_cache db z"
    by blast
  from Cons.IH [of db1 "Suc i"] obtain db' where
    r2: "rebuild_rows db1 clock (Suc i) pk rows = Some db'"
    and f2: "beads db' = beads db1" "bead_dependencies db' = bead_dependencies db1"
    and c2: "\<forall>y\<in>set rows. map_option blocker_ids (blocked_beads_cache db' y) = fresh_blockers db1 pk y"
    and o2: "\<forall>z. z \<notin> set rows \<longrightarrow> blocked_beads_cache db' z = blocked_beads_cache db1 z"
    by blast
  have fr: "fresh_blockers db1 pk y = fresh_blockers db pk y" for y
    using f1 by (rule fresh_blockers_frame)
  have run: "rebuild_rows db clock i pk (r # rows) = Some db'"
    using r1 r2 by simp
  have cache: "map_option blocker_ids (blocked_beads_cache db' y) = fresh_blockers db pk y"
    if "y \<in> set (r # rows)" for y
  proof (cases "y \<in> set rows")
    case True
    with c2 fr show ?thesis by simp
  next
    case False
    with that have "y = r" by simp
    with False o2 c1 show ?thesis by simp
  qed
  have other: "blocked_beads_cache db' z = blocked_beads_cache db z" if "z \<notin> set (r # rows)" for z
    using that o1 o2 by simp
  show ?case
  proof (intro exI [of _ db'] conjI ballI allI impI)
    show "rebuild_rows db clock i pk (r # rows) = Some db'" by (fact run)
    show "beads db' = beads db" using f1 f2 by simp
    show "bead_dependencies db' = bead_dependencies db" using f1 f2 by simp
  next
    fix y assume "y \<in> set (r # rows)"
    then show "map_option blocker_ids (blocked_beads_cache db' y) = fresh_blockers db pk y"
      by (rule cache)
  next
    fix z assume "z \<notin> set (r # rows)"
    then show "blocked_beads_cache db' z = blocked_beads_cache db z" by (rule other)
  qed
qed

text \<open>
  C4 (amended). \<open>invalidateBlockedCache\<close> always returns, writes the cache only, and
  leaves the cache rows of \<open>id\<close> and of every bead that directly depends on \<open>id\<close> (a row
  of \<open>bead_dependencies\<close> with \<open>depends_on_id = id\<close>, of any relationship) equal to a
  fresh computation of their open blockers; every other cache row is left as it was.
\<close>

theorem invalidateBlockedCache_direct:
  "\<exists>db'. invalidateBlockedCache db clock pk x = Some db'
     \<and> beads db' = beads db \<and> bead_dependencies db' = bead_dependencies db
     \<and> (\<forall>y\<in>insert x (direct_dependents db x).
           map_option blocker_ids (blocked_beads_cache db' y) = fresh_blockers db' pk y)
     \<and> (\<forall>z. z \<notin> insert x (direct_dependents db x)
           \<longrightarrow> blocked_beads_cache db' z = blocked_beads_cache db z)"
proof -
  from rebuildBeadBlockedCache_result [of db "clock 0" pk x] obtain db1 where
    r1: "rebuildBeadBlockedCache db (clock 0) pk x = Some db1"
    and f1: "beads db1 = beads db" "bead_dependencies db1 = bead_dependencies db"
    and c1: "map_option blocker_ids (blocked_beads_cache db1 x) = fresh_blockers db pk x"
    and o1: "\<forall>z. z \<noteq> x \<longrightarrow> blocked_beads_cache db1 z = blocked_beads_cache db z"
    by blast
  define rows where "rows = [bead_id d. d \<leftarrow> bead_dependencies db1, depends_on_id d = x]"
  have rows: "set rows = direct_dependents db x"
    using f1 by (simp add: rows_def direct_dependents_def)
  from rebuild_rows_result [of db1 clock 1 pk rows] obtain db' where
    r2: "rebuild_rows db1 clock 1 pk rows = Some db'"
    and f2: "beads db' = beads db1" "bead_dependencies db' = bead_dependencies db1"
    and c2: "\<forall>y\<in>set rows. map_option blocker_ids (blocked_beads_cache db' y) = fresh_blockers db1 pk y"
    and o2: "\<forall>z. z \<notin> set rows \<longrightarrow> blocked_beads_cache db' z = blocked_beads_cache db1 z"
    by blast
  have run: "invalidateBlockedCache db clock pk x = Some db'"
    using r1 r2 by (simp add: invalidateBlockedCache_def rows_def Let_def)
  have fr1: "fresh_blockers db1 pk y = fresh_blockers db pk y" for y
    using f1 by (rule fresh_blockers_frame)
  have fr2: "fresh_blockers db' pk y = fresh_blockers db pk y" for y
    using f1 f2 by (intro fresh_blockers_frame) simp_all
  have cache: "map_option blocker_ids (blocked_beads_cache db' y) = fresh_blockers db' pk y"
    if "y \<in> insert x (direct_dependents db x)" for y
  proof (cases "y \<in> set rows")
    case True
    with c2 fr1 fr2 show ?thesis by simp
  next
    case False
    with that rows have "y = x" by simp
    with False o2 c1 fr2 show ?thesis by simp
  qed
  have other: "blocked_beads_cache db' z = blocked_beads_cache db z"
    if "z \<notin> insert x (direct_dependents db x)" for z
    using that o1 o2 rows by simp
  show ?thesis
  proof (intro exI [of _ db'] conjI ballI allI impI)
    show "invalidateBlockedCache db clock pk x = Some db'" by (fact run)
    show "beads db' = beads db" using f1 f2 by simp
    show "bead_dependencies db' = bead_dependencies db" using f1 f2 by simp
  next
    fix y assume "y \<in> insert x (direct_dependents db x)"
    then show "map_option blocker_ids (blocked_beads_cache db' y) = fresh_blockers db' pk y"
      by (rule cache)
  next
    fix z assume "z \<notin> insert x (direct_dependents db x)"
    then show "blocked_beads_cache db' z = blocked_beads_cache db z" by (rule other)
  qed
qed

text \<open>
  C4 as stated: in the chain \<open>c\<close> depends on \<open>b\<close> depends on \<open>id\<close>, invalidating \<open>id\<close>
  rebuilds the rows of \<open>id\<close> and \<open>b\<close>. The row of \<open>c\<close> stays absent, where a fresh
  computation of its open blockers gives \<open>b\<close> and \<open>id\<close>.
\<close>

theorem invalidateBlockedCache_transitive_counterexample:
  "(case invalidateBlockedCache chain_db (\<lambda>i. 0) ''/repo'' ''id'' of
      None \<Rightarrow> False
    | Some db' \<Rightarrow>
        map_option blocker_ids (blocked_beads_cache db' ''b'') = Some [''id'']
        \<and> map_option blocker_ids (blocked_beads_cache db' ''c'') = None
        \<and> fresh_blockers db' ''/repo'' ''c'' = Some [''b'', ''id''])"
  by code_simp

theorem invalidateBlockedCache_direct_witness:
  "''b'' \<in> insert ''id'' (direct_dependents chain_db ''id'')
   \<and> ''c'' \<notin> insert ''id'' (direct_dependents chain_db ''id'')
   \<and> (\<exists>db'. invalidateBlockedCache chain_db (\<lambda>i. 0) ''/repo'' ''id'' = Some db'
         \<and> map_option blocker_ids (blocked_beads_cache db' ''b'') = fresh_blockers db' ''/repo'' ''b''
         \<and> blocked_beads_cache db' ''c'' = blocked_beads_cache chain_db ''c'')"
proof -
  have b: "''b'' \<in> insert ''id'' (direct_dependents chain_db ''id'')"
    by (simp add: direct_dependents_def chain_db_def)
  have c: "''c'' \<notin> insert ''id'' (direct_dependents chain_db ''id'')"
    by (simp add: direct_dependents_def chain_db_def)
  from invalidateBlockedCache_direct [of chain_db "\<lambda>i. 0" "''/repo''" "''id''"] b c
  show ?thesis by blast
qed


section \<open>The depth limit of the cycle check\<close>

lemma long_chain_rows:
  "d \<in> set long_chain \<longleftrightarrow>
     (\<exists>i<101. d = \<lparr>bead_id = chain_bead i, depends_on_id = chain_bead (Suc i),
                       relationship = Blocks\<rparr>)"
  by (auto simp: long_chain_def)

lemma long_chain_edges:
  "dep_edges long_chain = {(chain_bead i, chain_bead (Suc i)) | i. i < 101}"
  "blocks_edges long_chain = {(chain_bead i, chain_bead (Suc i)) | i. i < 101}"
proof -
  have row: "\<lparr>bead_id = chain_bead i, depends_on_id = chain_bead (Suc i), relationship = Blocks\<rparr>
               \<in> set long_chain" if "i < 101" for i
    using that unfolding long_chain_rows by blast
  show "dep_edges long_chain = {(chain_bead i, chain_bead (Suc i)) | i. i < 101}"
  proof (intro set_eqI iffI)
    fix e assume "e \<in> dep_edges long_chain"
    then obtain d where "d \<in> set long_chain" "e = (bead_id d, depends_on_id d)"
      unfolding dep_edges_def by blast
    then obtain i where "i < 101" "e = (chain_bead i, chain_bead (Suc i))"
      unfolding long_chain_rows by auto
    then show "e \<in> {(chain_bead i, chain_bead (Suc i)) | i. i < 101}" by blast
  next
    fix e assume "e \<in> {(chain_bead i, chain_bead (Suc i)) | i. i < 101}"
    then obtain i where i: "i < 101" "e = (chain_bead i, chain_bead (Suc i))" by blast
    from row [OF i(1)] i(2) show "e \<in> dep_edges long_chain"
      unfolding dep_edges_def by force
  qed
  show "blocks_edges long_chain = {(chain_bead i, chain_bead (Suc i)) | i. i < 101}"
  proof (intro set_eqI iffI)
    fix e assume "e \<in> blocks_edges long_chain"
    then obtain d where "d \<in> set long_chain" "e = (bead_id d, depends_on_id d)"
      unfolding blocks_edges_def by blast
    then obtain i where "i < 101" "e = (chain_bead i, chain_bead (Suc i))"
      unfolding long_chain_rows by auto
    then show "e \<in> {(chain_bead i, chain_bead (Suc i)) | i. i < 101}" by blast
  next
    fix e assume "e \<in> {(chain_bead i, chain_bead (Suc i)) | i. i < 101}"
    then obtain i where i: "i < 101" "e = (chain_bead i, chain_bead (Suc i))" by blast
    from row [OF i(1)] i(2) show "e \<in> blocks_edges long_chain"
      unfolding blocks_edges_def by force
  qed
qed

lemma long_chain_relpow_length:
  "(u, v) \<in> dep_edges long_chain ^^ n \<Longrightarrow> length v = length u + n"
proof (induction n arbitrary: v)
  case 0
  then show ?case by simp
next
  case (Suc n)
  then obtain w where "(u, w) \<in> dep_edges long_chain ^^ n" "(w, v) \<in> dep_edges long_chain"
    by auto
  with Suc.IH [of w] show ?case
    by (auto simp: long_chain_edges chain_bead_def)
qed

lemma long_chain_reach:
  "j \<le> 101 \<Longrightarrow> (chain_bead 0, chain_bead j) \<in> (blocks_edges long_chain)\<^sup>*"
proof (induction j)
  case 0
  then show ?case by simp
next
  case (Suc j)
  then have "(chain_bead 0, chain_bead j) \<in> (blocks_edges long_chain)\<^sup>*" by simp
  moreover have "(chain_bead j, chain_bead (Suc j)) \<in> blocks_edges long_chain"
    using Suc.prems unfolding long_chain_edges by auto
  ultimately show ?case by (rule rtrancl_into_rtrancl)
qed

lemma long_chain_relpow:
  "j \<le> 101 \<Longrightarrow> (chain_bead 0, chain_bead j) \<in> dep_edges long_chain ^^ j"
proof (induction j)
  case 0
  then show ?case by simp
next
  case (Suc j)
  then have "(chain_bead 0, chain_bead j) \<in> dep_edges long_chain ^^ j" by simp
  moreover have "(chain_bead j, chain_bead (Suc j)) \<in> dep_edges long_chain"
    using Suc.prems unfolding long_chain_edges by auto
  ultimately show ?case by (rule relpow_Suc_I)
qed

text \<open>
  The depth limit of the cycle check alone does not keep the table acyclic: the chain
  of 101 rows is acyclic, the row from its last bead to its first joins distinct beads,
  and \<open>wouldCreateCycle\<close> does not see the path of 101 edges, although the row would
  close a cycle. It is the depth overflow that refuses the row.
\<close>

lemma depth_overflow_stops_long_cycle:
  "acyclic (blocks_edges long_chain)
   \<and> bead_id closing_row \<noteq> depends_on_id closing_row
   \<and> wouldCreateCycle long_chain (bead_id closing_row) (depends_on_id closing_row) = Some False
   \<and> \<not> acyclic (blocks_edges (long_chain @ [closing_row]))
   \<and> add_dependency long_chain closing_row = Some (Inl GraphTooDeep)"
proof (intro conjI)
  show "acyclic (blocks_edges long_chain)"
  proof (rule acyclicI, rule allI, rule notI)
    fix u assume "(u, u) \<in> (blocks_edges long_chain)\<^sup>+"
    then obtain n where "0 < n" "(u, u) \<in> blocks_edges long_chain ^^ n"
      by (auto simp: trancl_power)
    then have "(u, u) \<in> dep_edges long_chain ^^ n" by (simp add: long_chain_edges)
    from long_chain_relpow_length [OF this] \<open>0 < n\<close> show False by simp
  qed
  show "bead_id closing_row \<noteq> depends_on_id closing_row"
    by (simp add: closing_row_def chain_bead_def)
  have guard: "\<not> (\<exists>n. 0 < n \<and> n \<le> 100
          \<and> (depends_on_id closing_row, bead_id closing_row) \<in> dep_edges long_chain ^^ n)"
  proof
    assume "\<exists>n. 0 < n \<and> n \<le> 100
          \<and> (depends_on_id closing_row, bead_id closing_row) \<in> dep_edges long_chain ^^ n"
    then obtain n where n: "n \<le> 100"
      "(chain_bead 0, chain_bead 101) \<in> dep_edges long_chain ^^ n"
      by (auto simp: closing_row_def)
    from long_chain_relpow_length [OF n(2)] have "n = 101" by (simp add: chain_bead_def)
    with n(1) show False by simp
  qed
  then show "wouldCreateCycle long_chain (bead_id closing_row) (depends_on_id closing_row)
               = Some False"
    by (simp only: wouldCreateCycle_relpow)
  show "\<not> acyclic (blocks_edges (long_chain @ [closing_row]))"
  proof
    assume a: "acyclic (blocks_edges (long_chain @ [closing_row]))"
    have "(chain_bead 0, chain_bead 101) \<in> (blocks_edges long_chain)\<^sup>*"
      by (rule long_chain_reach) simp
    moreover have "blocks_edges (long_chain @ [closing_row])
                     = insert (chain_bead 101, chain_bead 0) (blocks_edges long_chain)"
      by (simp add: blocks_edges_append closing_row_def)
    ultimately show False using a by (simp add: acyclic_insert)
  qed
  have "(chain_bead 0, chain_bead 101) \<in> dep_edges long_chain ^^ 101"
    by (rule long_chain_relpow) simp
  then have "\<exists>z. (depends_on_id closing_row, z) \<in> dep_edges long_chain ^^ 101"
    unfolding closing_row_def by (intro exI [of _ "chain_bead 101"]) simp
  with guard add_dependency_cases [of long_chain closing_row]
  show "add_dependency long_chain closing_row = Some (Inl GraphTooDeep)"
    by blast
qed


section \<open>Memory store: results\<close>

lemma db_rollback_begin:
  "tx_snapshot db = None \<Longrightarrow> db_rollback (db_begin db) = db"
  by (simp add: db_rollback_def db_begin_def)

lemma store_failure:
  assumes "tx_snapshot db = None"
    and "fails WriteMemory \<or> fails WriteEmbedding \<or> length emb \<noteq> EMBEDDING_DIM"
  shows "\<exists>e. store fails db m emb = (db, Some e)"
  using assms
  by (auto simp: store_def Let_def upsert_memory_def upsert_embedding_def db_rollback_def
      db_begin_def split: option.splits)

lemma store_success:
  assumes "tx_snapshot db = None"
    and "\<not> fails WriteMemory" "\<not> fails WriteEmbedding" "length emb = EMBEDDING_DIM"
  shows "store fails db m emb =
     (db\<lparr>memories := (memories db)(mem_id m \<mapsto>
               (case memories db (mem_id m) of
                  None \<Rightarrow>
                    \<lparr>row_content = content m, row_metadata = metadata m,
                     row_collection = collection m,
                     row_created_at = Some (createdAt m),
                     row_confidence = (case confidence m of None \<Rightarrow> 0.7 | Some c \<Rightarrow> c)\<rparr>
                | Some old \<Rightarrow>
                    old\<lparr>row_content := content m, row_metadata := metadata m,
                        row_collection := collection m,
                        row_confidence := (case confidence m of None \<Rightarrow> 0.7 | Some c \<Rightarrow> c)\<rparr>)),
         memory_embeddings := (memory_embeddings db)(mem_id m \<mapsto> emb)\<rparr>, None)"
  using assms
  by (simp add: store_def Let_def upsert_memory_def upsert_embedding_def db_commit_def
      db_begin_def)

text \<open>
  C9. For a memory whose \<open>id\<close> already has a row, and outside any other transaction:
  when both statements succeed, \<open>store\<close> commits a \<open>memories\<close> row with the new
  \<open>content\<close>, \<open>metadata\<close>, \<open>collection\<close> and \<open>confidence\<close> and the old \<open>created_at\<close>,
  leaves every other \<open>memories\<close> row alone and replaces the embedding of that \<open>id\<close>
  only; when either statement fails (a failing query, or an embedding that is not of
  dimension 1024), it throws and leaves the database exactly as it was.
\<close>

theorem store_upsert_atomic:
  assumes "tx_snapshot db = None" and "memories db (mem_id m) = Some old"
  shows "(\<not> fails WriteMemory \<and> \<not> fails WriteEmbedding \<and> length emb = EMBEDDING_DIM \<longrightarrow>
            (\<exists>db' row. store fails db m emb = (db', None)
               \<and> memories db' (mem_id m) = Some row
               \<and> row_content row = content m
               \<and> row_metadata row = metadata m
               \<and> row_collection row = collection m
               \<and> row_confidence row = (case confidence m of None \<Rightarrow> 0.7 | Some c \<Rightarrow> c)
               \<and> row_created_at row = row_created_at old
               \<and> (\<forall>k. k \<noteq> mem_id m \<longrightarrow> memories db' k = memories db k)
               \<and> memory_embeddings db' = (memory_embeddings db)(mem_id m \<mapsto> emb)
               \<and> tx_snapshot db' = None))
       \<and> (fails WriteMemory \<or> fails WriteEmbedding \<or> length emb \<noteq> EMBEDDING_DIM \<longrightarrow>
            (\<exists>e. store fails db m emb = (db, Some e)))"
proof (intro conjI impI)
  assume "\<not> fails WriteMemory \<and> \<not> fails WriteEmbedding \<and> length emb = EMBEDDING_DIM"
  then have "store fails db m emb =
     (db\<lparr>memories := (memories db)(mem_id m \<mapsto>
               old\<lparr>row_content := content m, row_metadata := metadata m,
                   row_collection := collection m,
                   row_confidence := (case confidence m of None \<Rightarrow> 0.7 | Some c \<Rightarrow> c)\<rparr>),
         memory_embeddings := (memory_embeddings db)(mem_id m \<mapsto> emb)\<rparr>, None)"
    using assms by (simp add: store_success)
  then show "\<exists>db' row. store fails db m emb = (db', None)
               \<and> memories db' (mem_id m) = Some row
               \<and> row_content row = content m
               \<and> row_metadata row = metadata m
               \<and> row_collection row = collection m
               \<and> row_confidence row = (case confidence m of None \<Rightarrow> 0.7 | Some c \<Rightarrow> c)
               \<and> row_created_at row = row_created_at old
               \<and> (\<forall>k. k \<noteq> mem_id m \<longrightarrow> memories db' k = memories db k)
               \<and> memory_embeddings db' = (memory_embeddings db)(mem_id m \<mapsto> emb)
               \<and> tx_snapshot db' = None"
    using assms by simp
next
  assume "fails WriteMemory \<or> fails WriteEmbedding \<or> length emb \<noteq> EMBEDDING_DIM"
  with assms(1) show "\<exists>e. store fails db m emb = (db, Some e)"
    by (rule store_failure)
qed

text \<open>
  The store on the database with \<open>mem-1\<close>: an upsert with a 1024-dimensional
  embedding, and one with a 3-dimensional embedding, which the second statement rejects.
\<close>

theorem store_upsert_atomic_witness:
  "tx_snapshot sample_db = None \<and> memories sample_db (mem_id sample_memory) = Some sample_row
   \<and> (\<exists>db' row. store (\<lambda>w. False) sample_db sample_memory (replicate 1024 0.5) = (db', None)
         \<and> memories db' ''mem-1'' = Some row
         \<and> row_content row = ''new text'' \<and> row_created_at row = Some 1000)
   \<and> (\<exists>e. store (\<lambda>w. False) sample_db sample_memory [1, 2, 3] = (sample_db, Some e))"
proof -
  have a: "tx_snapshot sample_db = None" by (simp add: sample_db_def)
  have b: "memories sample_db (mem_id sample_memory) = Some sample_row" by (simp add: sample_db_def sample_memory_def)
  have c: "length (replicate 1024 (0.5::real)) = EMBEDDING_DIM" by (simp add: EMBEDDING_DIM_def)
  have d: "length [1, 2, 3::real] \<noteq> EMBEDDING_DIM" by (simp add: EMBEDDING_DIM_def)
  from store_upsert_atomic [OF a b, of "\<lambda>w. False" "replicate 1024 0.5"] c
  obtain db' row where "store (\<lambda>w. False) sample_db sample_memory (replicate 1024 0.5) = (db', None)"
    "memories db' (mem_id sample_memory) = Some row" "row_content row = content sample_memory"
    "row_created_at row = row_created_at sample_row"
    by auto
  then have "\<exists>db' row. store (\<lambda>w. False) sample_db sample_memory (replicate 1024 0.5) = (db', None)
         \<and> memories db' ''mem-1'' = Some row
         \<and> row_content row = ''new text'' \<and> row_created_at row = Some 1000"
    by (auto simp: sample_memory_def sample_row_def)
  moreover from store_upsert_atomic [OF a b, of "\<lambda>w. False" "[1, 2, 3]"] d
  have "\<exists>e. store (\<lambda>w. False) sample_db sample_memory [1, 2, 3] = (sample_db, Some e)" by blast
  ultimately show ?thesis using a b by blast
qed


section \<open>Memory adapter: time decay of search results\<close>

lemma score_truncate_content [simp]: "score (truncate_content r) = score r"
  by (simp add: truncate_content_def)

lemma find_scores:
  "map score (adapter_find env clock db q opts)
     = map score (sort_key (\<lambda>r. - score r) (applyDecay clock (search_results env db q opts)))"
  by (simp add: adapter_find_def Let_def comp_def)

lemma find_sorted: "sorted (map (\<lambda>r. - score r) (adapter_find env clock db q opts))"
proof -
  have "map (\<lambda>r. - score r) (adapter_find env clock db q opts)
          = map (\<lambda>r. - score r) (sort_key (\<lambda>r. - score r)
              (applyDecay clock (search_results env db q opts)))"
    by (simp add: adapter_find_def Let_def comp_def)
  then show ?thesis by (simp only: sorted_sort_key)
qed

lemma applyDecay_scores:
  "map score (applyDecay clock rs)
     = map (\<lambda>(i, r). score r * 0.5 powr (real_of_int (clock i - createdAt (memory r))
                                            / 86400000 / 90))
           (enumerate 0 rs)"
  by (simp add: applyDecay_def calculateDecayFactor_def Let_def comp_def case_prod_unfold)

lemma applyDecay_length [simp]: "length (applyDecay clock rs) = length rs"
  by (simp add: applyDecay_def)

lemma decay_fresh: "calculateDecayFactor t t = 1"
  by (simp add: calculateDecayFactor_def)

lemma decay_180_days: "calculateDecayFactor t (t - 180 * 86400000) = 0.25"
proof -
  have "(0.5::real) powr 2 = 0.5 ^ 2" by (simp add: powr_numeral)
  then show ?thesis by (simp add: calculateDecayFactor_def power2_eq_square)
qed

lemma mem_id_truncate_content [simp]: "mem_id (memory (truncate_content r)) = mem_id (memory r)"
  by (simp add: truncate_content_def)

lemma find_two_results:
  assumes a: "score a = 1" "createdAt (memory a) = t"
    and b: "score b = 1" "createdAt (memory b) = t - 180 * 86400000"
    and clock: "clock 0 = t" "clock 1 = t"
    and rs: "search_results env db q opts = [a, b] \<or> search_results env db q opts = [b, a]"
  shows "map score (adapter_find env clock db q opts) = [1, 0.25]
       \<and> map (\<lambda>r. mem_id (memory r)) (adapter_find env clock db q opts)
           = [mem_id (memory a), mem_id (memory b)]"
proof -
  define a' where "a' = a\<lparr>score := 1\<rparr>"
  define b' where "b' = b\<lparr>score := 0.25\<rparr>"
  have da: "score a * calculateDecayFactor t (createdAt (memory a)) = 1"
    using a by (simp add: decay_fresh)
  have db: "score b * calculateDecayFactor t (createdAt (memory b)) = 0.25"
    using b decay_180_days [of t] by simp
  have "applyDecay clock (search_results env db q opts) = [a', b']
        \<or> applyDecay clock (search_results env db q opts) = [b', a']"
    using rs clock da db by (auto simp: applyDecay_def a'_def b'_def)
  then have sorted: "sort_key (\<lambda>r. - score r) (applyDecay clock (search_results env db q opts))
                      = [a', b']"
    by (auto simp: a'_def b'_def)
  have "adapter_find env clock db q opts = [a', b']
        \<or> adapter_find env clock db q opts = [truncate_content a', truncate_content b']"
    by (simp add: adapter_find_def Let_def sorted)
  then show ?thesis
    by (auto simp: a'_def b'_def)
qed

text \<open>
  C6. \<open>find\<close> multiplies the score of every search result by
  \<open>0.5 ^ (age_days / 90)\<close>, the age taken from \<open>created_at\<close> to the clock, and returns the
  results by descending decayed score. Two results of raw score 1, one created at the
  time of the query and one 180 days before, come back with scores 1 and 0.25, the
  fresh one first, whatever order the search gave them in. Scores are real numbers.
\<close>

theorem find_time_decay:
  assumes "score a = 1" and "createdAt (memory a) = t"
    and "score b = 1" and "createdAt (memory b) = t - 180 * 86400000"
    and "clock 0 = t" and "clock 1 = t"
    and "search_results env db q opts = [a, b] \<or> search_results env db q opts = [b, a]"
  shows "sorted (map (\<lambda>r. - score r) (adapter_find env' clock' db' q' opts'))
     \<and> mset (map score (adapter_find env' clock' db' q' opts'))
         = mset (map (\<lambda>(i, r). score r * 0.5 powr (real_of_int (clock' i - createdAt (memory r))
                                                      / 86400000 / 90))
                     (enumerate 0 (search_results env' db' q' opts')))
     \<and> map score (adapter_find env clock db q opts) = [1, 0.25]
     \<and> map (\<lambda>r. mem_id (memory r)) (adapter_find env clock db q opts)
           = [mem_id (memory a), mem_id (memory b)]"
proof -
  have "mset (map score (adapter_find env' clock' db' q' opts'))
          = mset (map score (applyDecay clock' (search_results env' db' q' opts')))"
    unfolding find_scores by simp
  then have "mset (map score (adapter_find env' clock' db' q' opts'))
         = mset (map (\<lambda>(i, r). score r * 0.5 powr (real_of_int (clock' i - createdAt (memory r))
                                                      / 86400000 / 90))
                     (enumerate 0 (search_results env' db' q' opts')))"
    by (simp only: applyDecay_scores)
  with find_sorted [of env' clock' db' q' opts'] find_two_results [OF assms]
  show ?thesis by blast
qed

theorem find_time_decay_witness:
  "score res_fresh = 1 \<and> createdAt (memory res_fresh) = 15552000000
   \<and> score res_old = 1 \<and> createdAt (memory res_old) = 15552000000 - 180 * 86400000
   \<and> search_results env_down sample_db ''same'' \<lparr>opt_limit = None, find_collection = None,
          opt_expand = None, opt_fts = None\<rparr> = [res_old, res_fresh]
   \<and> map score (adapter_find env_down (\<lambda>i. 15552000000) sample_db ''same''
          \<lparr>opt_limit = None, find_collection = None, opt_expand = None, opt_fts = None\<rparr>)
       = [1, 0.25]
   \<and> map (\<lambda>r. mem_id (memory r)) (adapter_find env_down (\<lambda>i. 15552000000) sample_db ''same''
          \<lparr>opt_limit = None, find_collection = None, opt_expand = None, opt_fts = None\<rparr>)
       = [''A'', ''B'']"
proof -
  let ?opts = "\<lparr>opt_limit = None, find_collection = None, opt_expand = None, opt_fts = None\<rparr>"
  have h1: "score res_fresh = 1" by (simp add: res_fresh_def)
  have h2: "createdAt (memory res_fresh) = 15552000000" by (simp add: res_fresh_def)
  have h3: "score res_old = 1" by (simp add: res_old_def)
  have h4: "createdAt (memory res_old) = 15552000000 - 180 * 86400000" by (simp add: res_old_def)
  have h5: "(\<lambda>i::nat. 15552000000::int) 0 = 15552000000" by simp
  have h6: "(\<lambda>i::nat. 15552000000::int) 1 = 15552000000" by simp
  have rs: "search_results env_down sample_db ''same'' ?opts = [res_old, res_fresh]"
    by (simp add: search_results_def env_down_def generateEmbedding_def Let_def)
  then have h7: "search_results env_down sample_db ''same'' ?opts = [res_fresh, res_old]
      \<or> search_results env_down sample_db ''same'' ?opts = [res_old, res_fresh]" by simp
  from find_time_decay [OF h1 h2 h3 h4 h5 h6 h7]
  have "map score (adapter_find env_down (\<lambda>i. 15552000000) sample_db ''same'' ?opts) = [1, 0.25]
     \<and> map (\<lambda>r. mem_id (memory r)) (adapter_find env_down (\<lambda>i. 15552000000) sample_db ''same'' ?opts)
           = [mem_id (memory res_fresh), mem_id (memory res_old)]"
    by blast
  then show ?thesis using h1 h2 h3 h4 rs by (simp add: res_fresh_def res_old_def)
qed


section \<open>Memory adapter: storing without an embedding\<close>

lemma adapter_store_no_embedding:
  assumes "generateEmbedding env information = None"
  shows "\<exists>e. adapter_store env fails new_id now db information options = (db, Inl e)"
  using assms
  by (simp add: adapter_store_def Let_def split: option.splits sum.splits)

lemma find_fallback:
  assumes "generateEmbedding env q = None"
  shows "search_results env db q opts = search_results env db q (opts\<lparr>opt_fts := Some True\<rparr>)"
  using assms by (simp add: search_results_def Let_def)

text \<open>
  C10. When the embedding client fails on the text to store, the adapter's \<open>store\<close>
  throws and leaves the database as it was: no row in \<open>memories\<close>, none in
  \<open>memory_embeddings\<close>, and every later \<open>find\<close>, full-text included, answers as before
  the call. \<open>find\<close> itself, when the client fails on the query, returns what the
  full-text search returns.
\<close>

theorem adapter_store_embedder_down:
  assumes "ollama_embed env information = Inl err"
  shows "(\<exists>e. adapter_store env fails new_id now db information options = (db, Inl e))
     \<and> memories (fst (adapter_store env fails new_id now db information options)) = memories db
     \<and> memory_embeddings (fst (adapter_store env fails new_id now db information options))
         = memory_embeddings db
     \<and> adapter_find env clock (fst (adapter_store env fails new_id now db information options))
           q (opts\<lparr>opt_fts := Some True\<rparr>)
         = adapter_find env clock db q (opts\<lparr>opt_fts := Some True\<rparr>)
     \<and> adapter_find env clock db information opts
         = adapter_find env clock db information (opts\<lparr>opt_fts := Some True\<rparr>)"
proof -
  from assms have g: "generateEmbedding env information = None"
    by (simp add: generateEmbedding_def)
  from adapter_store_no_embedding [OF g] obtain e where
    st: "adapter_store env fails new_id now db information options = (db, Inl e)" by blast
  have "adapter_find env clock db information opts
         = adapter_find env clock db information (opts\<lparr>opt_fts := Some True\<rparr>)"
    using find_fallback [OF g, of db opts] by (simp add: adapter_find_def Let_def)
  with st show ?thesis by simp
qed

theorem adapter_store_embedder_down_witness:
  "ollama_embed env_down ''remember this'' = Inl ''ECONNREFUSED''
   \<and> (\<exists>e. adapter_store env_down (\<lambda>w. False) ''mem-2'' 7000 sample_db ''remember this''
             \<lparr>opt_collection = None, opt_tags = Some ''a,b'', opt_metadata = None\<rparr> = (sample_db, Inl e))"
proof -
  have h: "ollama_embed env_down ''remember this'' = Inl ''ECONNREFUSED''"
    by (simp add: env_down_def)
  from adapter_store_embedder_down [OF h] h show ?thesis by blast
qed


section \<open>JSONL import: results\<close>

lemma parse_lines_bad:
  "find isl (map parse (filter (\<lambda>l. l \<noteq> []) (map trim ls))) = Some (Inl msg)
     \<Longrightarrow> parse_lines parse ls = Inl (Error (''Invalid JSON in JSONL: '' @ msg))"
proof (induction ls)
  case Nil
  then show ?case by simp
next
  case (Cons l ls)
  show ?case
  proof (cases "trim l = []")
    case True
    with Cons show ?thesis by simp
  next
    case False
    show ?thesis
    proof (cases "parse (trim l)")
      case (Inl m)
      with False Cons.prems show ?thesis by (simp add: Let_def)
    next
      case (Inr v)
      with False Cons.prems have
        "find isl (map parse (filter (\<lambda>l. l \<noteq> []) (map trim ls))) = Some (Inl msg)"
        by simp
      from Cons.IH [OF this] False Inr show ?thesis by (simp add: Let_def)
    qed
  qed
qed

lemma parse_lines_ok:
  "map parse (filter (\<lambda>l. l \<noteq> []) (map trim ls)) = map Inr vs
     \<Longrightarrow> parse_lines parse ls = Inr vs"
proof (induction ls arbitrary: vs)
  case Nil
  then show ?case by simp
next
  case (Cons l ls)
  show ?case
  proof (cases "trim l = []")
    case True
    with Cons show ?thesis by simp
  next
    case False
    with Cons.prems obtain v vs' where vs: "vs = v # vs'" "parse (trim l) = Inr v"
      "map parse (filter (\<lambda>l. l \<noteq> []) (map trim ls)) = map Inr vs'"
      by (cases vs) auto
    from Cons.IH [OF vs(3)] False vs(1,2) show ?thesis by (simp add: Let_def)
  qed
qed

lemma trimmed_lines_blank:
  assumes "jsonl = [] \<or> trim jsonl = []"
  shows "trimmed_lines jsonl = []"
proof -
  from assms have t: "trim jsonl = []" by auto
  have "\<forall>l\<in>set (map trim (split_nl jsonl)). \<not> l \<noteq> []"
    using blank_text_blank_lines [OF t] by auto
  then show ?thesis unfolding trimmed_lines_def by (simp only: filter_empty_conv)
qed

lemma parseMemoryJSONL_bad:
  assumes "find isl (map (JSON_parse env) (trimmed_lines jsonl)) = Some (Inl msg)"
  shows "parseMemoryJSONL env jsonl = Inl (Error (''Invalid JSON in JSONL: '' @ msg))"
proof (cases "jsonl = [] \<or> trim jsonl = []")
  case True
  from trimmed_lines_blank [OF True] assms show ?thesis by simp
next
  case False
  with parse_lines_bad [of "JSON_parse env" "split_nl jsonl" msg] assms show ?thesis
    by (simp add: parseMemoryJSONL_def trimmed_lines_def)
qed

lemma parseMemoryJSONL_ok:
  assumes "map (JSON_parse env) (trimmed_lines jsonl) = map Inr vs"
  shows "parseMemoryJSONL env jsonl = Inr vs"
proof (cases "jsonl = [] \<or> trim jsonl = []")
  case True
  from trimmed_lines_blank [OF True] assms have "vs = []" by simp
  with True show ?thesis by (simp add: parseMemoryJSONL_def)
next
  case False
  with parse_lines_ok [of "JSON_parse env" "split_nl jsonl" vs] assms show ?thesis
    by (simp add: parseMemoryJSONL_def trimmed_lines_def)
qed

lemma record_row_id:
  "record_row env v = Some (i, row) \<Longrightarrow> read_prop v ''id'' = Some (JString i) \<and> trim i \<noteq> []"
  by (auto simp: record_row_def split: option.splits json.splits if_splits sum.splits)

lemma importSingleMemory_error:
  assumes "v \<noteq> JNull"
    and "\<not> (\<exists>i. read_prop v ''id'' = Some (JString i) \<and> trim i \<noteq> [])"
  shows "record_row env v = None
       \<and> (\<exists>e. importSingleMemory env fails db v sk r = ((db, r), Some e))"
proof
  show "record_row env v = None"
    using assms(2) by (auto simp: record_row_def split: option.splits json.splits)
  show "\<exists>e. importSingleMemory env fails db v sk r = ((db, r), Some e)"
  proof (cases "read_prop v ''id''")
    case None
    with assms(1) show ?thesis by (simp add: importSingleMemory_def)
  next
    case (Some x)
    with assms show ?thesis
      by (cases x) (simp_all add: importSingleMemory_def)
  qed
qed

lemma importSingleMemory_skip:
  assumes "v \<noteq> JNull" and "read_prop v ''id'' = Some (JString i)" and "trim i \<noteq> []"
    and "memories db i \<noteq> None"
  shows "importSingleMemory env fails db v sk r = ((db, r\<lparr>skipped := skipped r + 1\<rparr>), None)"
proof -
  from assms(3) have "i \<noteq> []" by auto
  with assms show ?thesis by (simp add: importSingleMemory_def)
qed

lemma importSingleMemory_new:
  assumes "v \<noteq> JNull" and "read_prop v ''id'' = Some (JString i)" and "trim i \<noteq> []"
    and "memories db i = None"
  shows "(\<not> fails WriteMemory \<and> (\<exists>row. record_row env v = Some (i, row)
            \<and> importSingleMemory env fails db v sk r
                = ((db\<lparr>memories := (memories db)(i \<mapsto> row)\<rparr>, r\<lparr>created := created r + 1\<rparr>), None)))
       \<or> ((fails WriteMemory \<or> record_row env v = None)
            \<and> (\<exists>e. importSingleMemory env fails db v sk r = ((db, r), Some e)))"
proof -
  from assms(3) have ne: "i \<noteq> []" by auto
  show ?thesis
  proof (cases "build_metadata env v")
    case (Inl e)
    with assms ne show ?thesis by (simp add: importSingleMemory_def record_row_def)
  next
    case md: (Inr md)
    show ?thesis
    proof (cases "fails WriteMemory")
      case True
      with assms ne md show ?thesis by (simp add: importSingleMemory_def insert_memory_def)
    next
      case nf: False
      show ?thesis
      proof (cases "content_column env (read_prop v ''information'')")
        case (Inl e)
        with assms ne md nf show ?thesis
          by (simp add: importSingleMemory_def insert_memory_def record_row_def)
      next
        case c: (Inr c)
        show ?thesis
        proof (cases "created_at_column env (read_prop v ''created_at'')")
          case (Inl e)
          with assms ne md nf c show ?thesis
            by (simp add: importSingleMemory_def insert_memory_def record_row_def)
        next
          case (Inr t)
          with assms ne md nf c show ?thesis
            by (simp add: importSingleMemory_def insert_memory_def record_row_def)
        qed
      qed
    qed
  qed
qed

lemma batch_rows_Nil [simp]: "batch_rows env fails [] = []"
  by (simp add: batch_rows_def map_filter_simps)

lemma batch_rows_skip:
  "fails WriteMemory \<or> record_row env v = None
     \<Longrightarrow> batch_rows env fails (v # vs) = batch_rows env fails vs"
  by (auto simp: batch_rows_def map_filter_simps)

lemma batch_rows_row:
  "\<not> fails WriteMemory \<Longrightarrow> record_row env v = Some p
     \<Longrightarrow> batch_rows env fails (v # vs) = p # batch_rows env fails vs"
  by (simp add: batch_rows_def map_filter_simps)

lemma batch_rows_present:
  assumes "read_prop v ''id'' = Some (JString i)" and "m i \<noteq> None"
  shows "map_of (batch_rows env fails (v # vs)) ++ m = map_of (batch_rows env fails vs) ++ m"
proof (cases "fails WriteMemory \<or> record_row env v = None")
  case True
  then show ?thesis by (simp only: batch_rows_skip)
next
  case False
  then obtain i' row where r: "record_row env v = Some (i', row)" and nf: "\<not> fails WriteMemory"
    by auto
  from record_row_id [OF r] assms(1) have "i' = i" by simp
  with r nf have "batch_rows env fails (v # vs) = (i, row) # batch_rows env fails vs"
    by (simp add: batch_rows_row)
  moreover have "map_of ((i, row) # L) ++ m = map_of L ++ m" for L
    using assms(2) by (auto simp: map_add_def fun_eq_iff split: option.splits)
  ultimately show ?thesis by simp
qed

lemma map_add_new_row:
  assumes "m i = None"
  shows "map_of L ++ m(i \<mapsto> row) = map_of ((i, row) # L) ++ m"
  using assms by (auto simp: map_add_def fun_eq_iff split: option.splits)

lemma card_new_row:
  assumes "m i = None" and "m' = map_of L ++ m(i \<mapsto> row)"
  shows "card (dom m' - dom m) = Suc (card (dom m' - dom (m(i \<mapsto> row))))"
proof -
  have d: "dom m' = dom (map_of L) \<union> insert i (dom m)" unfolding assms(2) by auto
  have fin: "finite (dom m' - insert i (dom m))"
    unfolding d by (rule finite_subset [of _ "dom (map_of L)"]) (auto simp: finite_dom_map_of)
  have "i \<notin> dom m" using assms(1) by auto
  then have "dom m' - dom m = insert i (dom m' - insert i (dom m))" unfolding d by auto
  moreover have "card (insert i (dom m' - insert i (dom m)))
                   = Suc (card (dom m' - insert i (dom m)))"
    using fin by (rule card_insert_disjoint) simp
  ultimately have "card (dom m' - dom m) = Suc (card (dom m' - insert i (dom m)))"
    by (simp only:)
  then show ?thesis by simp
qed

lemma length_filter_Cons_le: "n \<le> k + length (filter P vs) \<Longrightarrow> n \<le> k + length (filter P (v # vs))"
  by simp

lemma import_loop_rows:
  assumes "JNull \<notin> set vs"
  shows "\<exists>db' r'. import_loop env fails sk db r vs = (db', Inr r')
     \<and> memories db' = map_of (batch_rows env fails vs) ++ memories db
     \<and> memory_embeddings db' = memory_embeddings db
     \<and> tx_snapshot db' = tx_snapshot db
     \<and> created r' + skipped r' + length (errors r')
         = created r + skipped r + length (errors r) + length vs
     \<and> created r' = created r + card (dom (memories db') - dom (memories db))
     \<and> length (errors r') \<le> length (errors r)
         + length (filter (\<lambda>v. fails WriteMemory \<or> record_row env v = None) vs)"
  using assms
proof (induction vs arbitrary: db r)
  case Nil
  then show ?case by simp
next
  case (Cons v vs)
  then have nn: "v \<noteq> JNull" and rest: "JNull \<notin> set vs" by auto
  let ?bad = "\<lambda>v. fails WriteMemory \<or> record_row env v = None"
  consider
    (err) e where "?bad v" "importSingleMemory env fails db v sk r = ((db, r), Some e)"
      "batch_rows env fails (v # vs) = batch_rows env fails vs"
  | (skip) i where "read_prop v ''id'' = Some (JString i)" "memories db i \<noteq> None"
      "importSingleMemory env fails db v sk r = ((db, r\<lparr>skipped := skipped r + 1\<rparr>), None)"
  | (new) i row where "\<not> ?bad v" "record_row env v = Some (i, row)" "memories db i = None"
      "importSingleMemory env fails db v sk r
         = ((db\<lparr>memories := (memories db)(i \<mapsto> row)\<rparr>, r\<lparr>created := created r + 1\<rparr>), None)"
  proof (cases "\<exists>i. read_prop v ''id'' = Some (JString i) \<and> trim i \<noteq> []")
    case False
    from importSingleMemory_error [OF nn False, where env = env and fails = fails and db = db and sk = sk and r = r]
    obtain e where "record_row env v = None"
      "importSingleMemory env fails db v sk r = ((db, r), Some e)" by blast
    then show ?thesis using err [of e] by (simp add: batch_rows_skip)
  next
    case True
    then obtain i where i: "read_prop v ''id'' = Some (JString i)" "trim i \<noteq> []" by blast
    show ?thesis
    proof (cases "memories db i = None")
      case False
      from importSingleMemory_skip [OF nn i False] i(1) False show ?thesis by (rule skip [rotated 2])
    next
      case True
      from importSingleMemory_new [OF nn i True, where env = env and fails = fails and sk = sk and r = r]
      consider
        (a) row where "\<not> fails WriteMemory" "record_row env v = Some (i, row)"
          "importSingleMemory env fails db v sk r
             = ((db\<lparr>memories := (memories db)(i \<mapsto> row)\<rparr>, r\<lparr>created := created r + 1\<rparr>), None)"
      | (b) e where "fails WriteMemory \<or> record_row env v = None"
          "importSingleMemory env fails db v sk r = ((db, r), Some e)"
        by blast
      then show ?thesis
      proof cases
        case a
        with True show ?thesis using new [of i row] by simp
      next
        case b
        then show ?thesis using err [of e] by (simp add: batch_rows_skip)
      qed
    qed
  qed
  then show ?case
  proof cases
    case err
    let ?r1 = "r\<lparr>errors := errors r @ [(read_prop v ''id'', e)]\<rparr>"
    from Cons.IH [OF rest, of db ?r1] obtain db' r' where
      l: "import_loop env fails sk db ?r1 vs = (db', Inr r')"
      and m: "memories db' = map_of (batch_rows env fails vs) ++ memories db"
      and e: "memory_embeddings db' = memory_embeddings db"
      and t: "tx_snapshot db' = tx_snapshot db"
      and n: "created r' + skipped r' + length (errors r')
                = created ?r1 + skipped ?r1 + length (errors ?r1) + length vs"
      and c: "created r' = created ?r1 + card (dom (memories db') - dom (memories db))"
      and b: "length (errors r') \<le> length (errors ?r1) + length (filter ?bad vs)"
      by blast
    have "import_loop env fails sk db r (v # vs) = (db', Inr r')"
      using err(2) nn l by simp
    moreover have "memories db' = map_of (batch_rows env fails (v # vs)) ++ memories db"
      using m err(3) by simp
    moreover have "created r' + skipped r' + length (errors r')
         = created r + skipped r + length (errors r) + length (v # vs)"
      using n by simp
    moreover have "created r' = created r + card (dom (memories db') - dom (memories db))"
      using c by simp
    moreover have "length (errors r') \<le> length (errors r) + length (filter ?bad (v # vs))"
      using b err(1) by simp
    ultimately show ?thesis using e t by (intro exI conjI)
  next
    case skip
    let ?r1 = "r\<lparr>skipped := skipped r + 1\<rparr>"
    from Cons.IH [OF rest, of db ?r1] obtain db' r' where
      l: "import_loop env fails sk db ?r1 vs = (db', Inr r')"
      and m: "memories db' = map_of (batch_rows env fails vs) ++ memories db"
      and e: "memory_embeddings db' = memory_embeddings db"
      and t: "tx_snapshot db' = tx_snapshot db"
      and n: "created r' + skipped r' + length (errors r')
                = created ?r1 + skipped ?r1 + length (errors ?r1) + length vs"
      and c: "created r' = created ?r1 + card (dom (memories db') - dom (memories db))"
      and b: "length (errors r') \<le> length (errors ?r1) + length (filter ?bad vs)"
      by blast
    have "import_loop env fails sk db r (v # vs) = (db', Inr r')"
      using skip(3) l by simp
    moreover have "memories db' = map_of (batch_rows env fails (v # vs)) ++ memories db"
      using m batch_rows_present [where v = v and i = i and m = "memories db" and env = env and fails = fails and vs = vs, OF skip(1,2)] by simp
    moreover have "created r' + skipped r' + length (errors r')
         = created r + skipped r + length (errors r) + length (v # vs)"
      using n by simp
    moreover have "created r' = created r + card (dom (memories db') - dom (memories db))"
      using c by simp
    moreover have "length (errors r') \<le> length (errors r) + length (filter ?bad (v # vs))"
    proof (rule length_filter_Cons_le)
      show "length (errors r') \<le> length (errors r) + length (filter ?bad vs)" using b by simp
    qed
    ultimately show ?thesis using e t by (intro exI conjI)
  next
    case new
    let ?r1 = "r\<lparr>created := created r + 1\<rparr>"
    let ?db1 = "db\<lparr>memories := (memories db)(i \<mapsto> row)\<rparr>"
    from Cons.IH [OF rest, of ?db1 ?r1] obtain db' r' where
      l: "import_loop env fails sk ?db1 ?r1 vs = (db', Inr r')"
      and m: "memories db' = map_of (batch_rows env fails vs) ++ memories ?db1"
      and e: "memory_embeddings db' = memory_embeddings ?db1"
      and t: "tx_snapshot db' = tx_snapshot ?db1"
      and n: "created r' + skipped r' + length (errors r')
                = created ?r1 + skipped ?r1 + length (errors ?r1) + length vs"
      and c: "created r' = created ?r1 + card (dom (memories db') - dom (memories ?db1))"
      and b: "length (errors r') \<le> length (errors ?r1) + length (filter ?bad vs)"
      by blast
    from m have m1: "memories db' = map_of (batch_rows env fails vs) ++ (memories db)(i \<mapsto> row)"
      by simp
    have br: "batch_rows env fails (v # vs) = (i, row) # batch_rows env fails vs"
      using new(1,2) by (simp add: batch_rows_row)
    have "import_loop env fails sk db r (v # vs) = (db', Inr r')"
      using new(4) l by simp
    moreover have "memories db' = map_of (batch_rows env fails (v # vs)) ++ memories db"
      unfolding br m1 using new(3) by (rule map_add_new_row)
    moreover have "memory_embeddings db' = memory_embeddings db" using e by simp
    moreover have "tx_snapshot db' = tx_snapshot db" using t by simp
    moreover have "created r' + skipped r' + length (errors r')
         = created r + skipped r + length (errors r) + length (v # vs)"
      using n by simp
    moreover have "created r' = created r + card (dom (memories db') - dom (memories db))"
      using c card_new_row [OF new(3) m1] by simp
    moreover have "length (errors r') \<le> length (errors r) + length (filter ?bad (v # vs))"
    proof (rule length_filter_Cons_le)
      show "length (errors r') \<le> length (errors r) + length (filter ?bad vs)" using b by simp
    qed
    ultimately show ?thesis by (intro exI conjI)
  qed
qed

lemma import_loop_append:
  "import_loop env fails sk db r (vs @ ws)
     = (case import_loop env fails sk db r vs of
          (db1, Inr r1) \<Rightarrow> import_loop env fails sk db1 r1 ws
        | (db1, Inl e) \<Rightarrow> (db1, Inl e))"
proof (induction vs arbitrary: db r)
  case Nil
  then show ?case by simp
next
  case (Cons v vs)
  obtain db1 r1 err where s: "importSingleMemory env fails db v sk r = ((db1, r1), err)"
    by (cases "importSingleMemory env fails db v sk r") auto
  show ?case
  proof (cases err)
    case None
    with s Cons.IH [of db1 r1] show ?thesis by simp
  next
    case (Some e)
    with s Cons.IH [of db1 "r1\<lparr>errors := errors r1 @ [(read_prop v ''id'', e)]\<rparr>"]
    show ?thesis by simp
  qed
qed

lemma import_loop_null:
  "import_loop env fails sk db r (JNull # rest)
     = (db, Inl (TypeError ''Cannot read properties of null (reading 'id')''))"
  by (simp add: importSingleMemory_def)


lemma importMemories_loop:
  assumes "map (JSON_parse env) (trimmed_lines jsonl) = map Inr vs"
  shows "importMemories env fails db jsonl skipExisting
           = import_loop env fails (case skipExisting of None \<Rightarrow> True | Some b \<Rightarrow> b) db
               \<lparr>created = 0, skipped = 0, errors = []\<rparr> vs"
  using parseMemoryJSONL_ok [OF assms] by (simp add: importMemories_def)

text \<open>
  A line that parses to \<open>null\<close>: the records before it are imported, then the handler
  of the \<open>catch\<close> throws a \<open>TypeError\<close> out of the import; the records after it are not
  imported and there is no result.
\<close>

lemma importMemories_null_line:
  assumes p: "map (JSON_parse env) (trimmed_lines jsonl) = map Inr vs"
    and null: "JNull \<in> set vs"
  shows "\<exists>db'. importMemories env fails db jsonl skipExisting
                 = (db', Inl (TypeError ''Cannot read properties of null (reading 'id')''))
           \<and> memories db'
               = map_of (batch_rows env fails (takeWhile (\<lambda>v. v \<noteq> JNull) vs)) ++ memories db"
proof -
  define sk where "sk = (case skipExisting of None \<Rightarrow> True | Some b \<Rightarrow> b)"
  define r0 where "r0 = \<lparr>created = 0, skipped = 0, errors = []\<rparr>"
  define ms where "ms = takeWhile (\<lambda>v. v \<noteq> JNull) vs"
  have im: "importMemories env fails db jsonl skipExisting = import_loop env fails sk db r0 vs"
    unfolding sk_def r0_def using p by (rule importMemories_loop)
  have nn: "JNull \<notin> set ms" unfolding ms_def by (auto dest: set_takeWhileD)
  from import_loop_rows [OF nn, where env = env and fails = fails and sk = sk and db = db and r = r0]
  obtain db1 r1 where
    l: "import_loop env fails sk db r0 ms = (db1, Inr r1)"
    and m: "memories db1 = map_of (batch_rows env fails ms) ++ memories db"
    by blast
  from null have d: "dropWhile (\<lambda>v. v \<noteq> JNull) vs \<noteq> []" by (simp add: dropWhile_eq_Nil_conv)
  with hd_dropWhile [of "\<lambda>v. v \<noteq> JNull" vs]
  have "dropWhile (\<lambda>v. v \<noteq> JNull) vs = JNull # tl (dropWhile (\<lambda>v. v \<noteq> JNull) vs)"
    by (cases "dropWhile (\<lambda>v. v \<noteq> JNull) vs") auto
  then have "vs = ms @ JNull # tl (dropWhile (\<lambda>v. v \<noteq> JNull) vs)"
    unfolding ms_def using takeWhile_dropWhile_id [of "\<lambda>v. v \<noteq> JNull" vs] by simp
  then have "import_loop env fails sk db r0 vs
               = import_loop env fails sk db r0 (ms @ JNull # tl (dropWhile (\<lambda>v. v \<noteq> JNull) vs))"
    by simp
  also have "\<dots> = (db1, Inl (TypeError ''Cannot read properties of null (reading 'id')''))"
    by (simp only: import_loop_append l prod.case sum.case import_loop_null)
  finally have "importMemories env fails db jsonl skipExisting
               = (db1, Inl (TypeError ''Cannot read properties of null (reading 'id')''))"
    using im by simp
  moreover have "memories db1
           = map_of (batch_rows env fails (takeWhile (\<lambda>v. v \<noteq> JNull) vs)) ++ memories db"
    using m unfolding ms_def .
  ultimately show ?thesis by (intro exI conjI)
qed

text \<open>
  C5 (amended). The import skips blank lines and hands the other lines, trimmed, to
  \<open>JSON.parse\<close>. When one of them is malformed JSON, the parse step throws
  \<open>Invalid JSON in JSONL: ...\<close> with the message of the first such line out of the
  import, before any record is written: the batch fails and the database is as it
  was. When every line parses to a value other than \<open>null\<close>, the import returns a
  result and has imported all well-formed records: the rows that were in the table
  are kept, and every other id gets the row of the first well-formed record of the
  batch that has it; the embeddings are not written. Every record is counted once, as
  created, as skipped, or as an entry of \<open>errors\<close>, \<open>created\<close> is the number of new rows,
  and \<open>errors\<close> has at most one entry for each record that is not well-formed or whose
  write the database fails.
\<close>

theorem importMemories_batch:
  "(\<forall>msg. find isl (map (JSON_parse env) (trimmed_lines jsonl)) = Some (Inl msg) \<longrightarrow>
      importMemories env fails db jsonl skipExisting
        = (db, Inl (Error (''Invalid JSON in JSONL: '' @ msg))))
   \<and> (\<forall>vs. map (JSON_parse env) (trimmed_lines jsonl) = map Inr vs \<and> JNull \<notin> set vs \<longrightarrow>
      (\<exists>db' r. importMemories env fails db jsonl skipExisting = (db', Inr r)
         \<and> memories db' = map_of (batch_rows env fails vs) ++ memories db
         \<and> memory_embeddings db' = memory_embeddings db
         \<and> tx_snapshot db' = tx_snapshot db
         \<and> created r + skipped r + length (errors r) = length vs
         \<and> created r = card (dom (memories db') - dom (memories db))
         \<and> length (errors r)
             \<le> length (filter (\<lambda>v. fails WriteMemory \<or> record_row env v = None) vs)))"
proof (intro conjI allI impI)
  fix msg
  assume "find isl (map (JSON_parse env) (trimmed_lines jsonl)) = Some (Inl msg)"
  from parseMemoryJSONL_bad [OF this]
  show "importMemories env fails db jsonl skipExisting
          = (db, Inl (Error (''Invalid JSON in JSONL: '' @ msg)))"
    by (simp add: importMemories_def)
next
  fix vs
  assume a: "map (JSON_parse env) (trimmed_lines jsonl) = map Inr vs \<and> JNull \<notin> set vs"
  define sk where "sk = (case skipExisting of None \<Rightarrow> True | Some b \<Rightarrow> b)"
  define r0 where "r0 = \<lparr>created = 0, skipped = 0, errors = []\<rparr>"
  from a have p: "map (JSON_parse env) (trimmed_lines jsonl) = map Inr vs"
    and nn: "JNull \<notin> set vs" by simp_all
  have im: "importMemories env fails db jsonl skipExisting = import_loop env fails sk db r0 vs"
    unfolding sk_def r0_def using p by (rule importMemories_loop)
  from import_loop_rows [OF nn, where env = env and fails = fails and sk = sk and db = db and r = r0]
  obtain db1 r1 where
    l: "import_loop env fails sk db r0 vs = (db1, Inr r1)"
    and m: "memories db1 = map_of (batch_rows env fails vs) ++ memories db"
    and e: "memory_embeddings db1 = memory_embeddings db"
    and t: "tx_snapshot db1 = tx_snapshot db"
    and n: "created r1 + skipped r1 + length (errors r1)
              = created r0 + skipped r0 + length (errors r0) + length vs"
    and c: "created r1 = created r0 + card (dom (memories db1) - dom (memories db))"
    and b: "length (errors r1) \<le> length (errors r0)
              + length (filter (\<lambda>v. fails WriteMemory \<or> record_row env v = None) vs)"
    by blast
  have 1: "importMemories env fails db jsonl skipExisting = (db1, Inr r1)"
    using im l by simp
  have 3: "created r1 + skipped r1 + length (errors r1) = length vs"
    using n by (simp add: r0_def)
  have 4: "created r1 = card (dom (memories db1) - dom (memories db))"
    using c by (simp add: r0_def)
  have 5: "length (errors r1)
             \<le> length (filter (\<lambda>v. fails WriteMemory \<or> record_row env v = None) vs)"
    using b by (simp add: r0_def)
  from 1 m e t 3 4 5
  show "\<exists>db' r. importMemories env fails db jsonl skipExisting = (db', Inr r)
         \<and> memories db' = map_of (batch_rows env fails vs) ++ memories db
         \<and> memory_embeddings db' = memory_embeddings db
         \<and> tx_snapshot db' = tx_snapshot db
         \<and> created r + skipped r + length (errors r) = length vs
         \<and> created r = card (dom (memories db') - dom (memories db))
         \<and> length (errors r)
             \<le> length (filter (\<lambda>v. fails WriteMemory \<or> record_row env v = None) vs)"
    by (intro exI conjI)
qed

lemma trimmed_mixed: "trimmed_lines mixed_jsonl = [line_m1, ''{not json'']"
  by code_simp

lemma trimmed_good: "trimmed_lines good_jsonl = [line_m1, line_m2, line_m1]"
  by code_simp

lemma trimmed_null: "trimmed_lines null_jsonl = [line_m1, ''null'', line_m2]"
  by code_simp

lemma parse_m1:
  "JSON_parse env_m1 line_m1 = Inr export_m1"
  "JSON_parse env_m1 line_m2 = Inr export_m2"
  "JSON_parse env_m1 ''null'' = Inr JNull"
  "JSON_parse env_m1 ''{not json'' = Inl ''Unexpected token''"
  by (simp_all add: env_m1_def line_m1_def line_m2_def)

lemma record_row_m1: "record_row env_m1 export_m1 = Some (''m1'', row_m1)"
  by code_simp

lemma record_row_m2: "record_row env_m1 export_m2 = Some (''m2'', row_m2)"
  by code_simp

text \<open>
  C5 as stated: a batch of a valid record, a blank line and a malformed line. The
  record of the first line is well-formed and its id is not in the table, but the
  import throws: there is no result, no \<open>errors\<close> array, and the record is not imported.
\<close>

theorem import_mixed_batch_counterexample:
  "trimmed_lines mixed_jsonl = [line_m1, ''{not json'']
   \<and> JSON_parse env_m1 line_m1 = Inr export_m1
   \<and> record_row env_m1 export_m1 = Some (''m1'', row_m1)
   \<and> JSON_parse env_m1 ''{not json'' = Inl ''Unexpected token''
   \<and> importMemories env_m1 (\<lambda>w. False) empty_db mixed_jsonl None
        = (empty_db, Inl (Error ''Invalid JSON in JSONL: Unexpected token''))
   \<and> memories empty_db ''m1'' = None"
proof -
  have "find isl (map (JSON_parse env_m1) (trimmed_lines mixed_jsonl))
          = Some (Inl ''Unexpected token'')"
    by (simp add: trimmed_mixed parse_m1)
  then have "parseMemoryJSONL env_m1 mixed_jsonl
               = Inl (Error (''Invalid JSON in JSONL: '' @ ''Unexpected token''))"
    by (rule parseMemoryJSONL_bad)
  then have "importMemories env_m1 (\<lambda>w. False) empty_db mixed_jsonl None
        = (empty_db, Inl (Error ''Invalid JSON in JSONL: Unexpected token''))"
    by (simp add: importMemories_def)
  moreover have "memories empty_db ''m1'' = None" by (simp add: empty_db_def)
  ultimately show ?thesis using trimmed_mixed parse_m1(1,4) record_row_m1 by (intro conjI)
qed

text \<open>
  The batch with the line \<open>null\<close>: the record before it is written, the record after it
  is not.
\<close>

lemma import_null_line_aborts:
  "importMemories env_m1 (\<lambda>w. False) empty_db null_jsonl None
     = (empty_db\<lparr>memories := [''m1'' \<mapsto> row_m1]\<rparr>,
        Inl (TypeError ''Cannot read properties of null (reading 'id')''))"
proof -
  have "map (JSON_parse env_m1) (trimmed_lines null_jsonl) = map Inr [export_m1, JNull, export_m2]"
    by (simp add: trimmed_null parse_m1)
  then have p: "parseMemoryJSONL env_m1 null_jsonl = Inr [export_m1, JNull, export_m2]"
    by (rule parseMemoryJSONL_ok)
  have nn: "export_m1 \<noteq> JNull" by (simp add: export_m1_def)
  have i: "read_prop export_m1 ''id'' = Some (JString ''m1'')"
    by (simp add: read_prop_def export_m1_def)
  have t: "trim ''m1'' \<noteq> []" by code_simp
  have e: "memories empty_db ''m1'' = None" by (simp add: empty_db_def)
  from importSingleMemory_new [OF nn i t e, where env = env_m1 and fails = "\<lambda>w. False"
      and sk = True and r = "\<lparr>created = 0, skipped = 0, errors = []\<rparr>"] record_row_m1
  have "importSingleMemory env_m1 (\<lambda>w. False) empty_db export_m1 True
          \<lparr>created = 0, skipped = 0, errors = []\<rparr>
        = ((empty_db\<lparr>memories := [''m1'' \<mapsto> row_m1]\<rparr>,
            \<lparr>created = 1, skipped = 0, errors = []\<rparr>), None)"
    by (simp add: empty_db_def)
  then have "import_loop env_m1 (\<lambda>w. False) True empty_db
               \<lparr>created = 0, skipped = 0, errors = []\<rparr> [export_m1, JNull, export_m2]
             = (empty_db\<lparr>memories := [''m1'' \<mapsto> row_m1]\<rparr>,
                Inl (TypeError ''Cannot read properties of null (reading 'id')''))"
    by (simp only: import_loop.simps(2) [of _ _ _ _ _ export_m1] prod.case option.case
          import_loop_null)
  with p show ?thesis by (simp add: importMemories_def)
qed

theorem importMemories_batch_witness:
  "find isl (map (JSON_parse env_m1) (trimmed_lines mixed_jsonl))
     = Some (Inl ''Unexpected token'')
   \<and> importMemories env_m1 (\<lambda>w. False) empty_db mixed_jsonl None
       = (empty_db, Inl (Error ''Invalid JSON in JSONL: Unexpected token''))
   \<and> map (JSON_parse env_m1) (trimmed_lines good_jsonl) = map Inr [export_m1, export_m2, export_m1]
   \<and> JNull \<notin> set [export_m1, export_m2, export_m1]
   \<and> (\<exists>db' r. importMemories env_m1 (\<lambda>w. False) empty_db good_jsonl None = (db', Inr r)
         \<and> memories db' = [''m1'' \<mapsto> row_m1, ''m2'' \<mapsto> row_m2]
         \<and> created r = 2 \<and> skipped r = 1 \<and> errors r = [])"
proof -
  let ?vs = "[export_m1, export_m2, export_m1]"
  have A: "find isl (map (JSON_parse env_m1) (trimmed_lines mixed_jsonl))
             = Some (Inl ''Unexpected token'')"
    by (simp add: trimmed_mixed parse_m1)
  have B: "map (JSON_parse env_m1) (trimmed_lines good_jsonl) = map Inr ?vs"
    by (simp add: trimmed_good parse_m1)
  have nn: "JNull \<notin> set ?vs" by (simp add: export_m1_def export_m2_def)
  have br: "batch_rows env_m1 (\<lambda>w. False) ?vs
              = [(''m1'', row_m1), (''m2'', row_m2), (''m1'', row_m1)]"
    by (simp add: batch_rows_def map_filter_simps record_row_m1 record_row_m2)
  have mp: "map_of [(''m1'', row_m1), (''m2'', row_m2), (''m1'', row_m1)] ++ memories empty_db
              = [''m1'' \<mapsto> row_m1, ''m2'' \<mapsto> row_m2]"
    by (rule ext) (simp add: empty_db_def)
  have cd: "card (dom [''m1'' \<mapsto> row_m1, ''m2'' \<mapsto> row_m2] - dom (memories empty_db)) = 2"
    by (simp add: empty_db_def)
  have nb: "filter (\<lambda>v. False \<or> record_row env_m1 v = None) ?vs = []"
    by (simp add: record_row_m1 record_row_m2)
  note thm1 = importMemories_batch [where env = env_m1 and jsonl = mixed_jsonl
      and fails = "\<lambda>w. False" and db = empty_db and skipExisting = None]
  note thm2 = importMemories_batch [where env = env_m1 and jsonl = good_jsonl
      and fails = "\<lambda>w. False" and db = empty_db and skipExisting = None]
  from thm1 A have 1: "importMemories env_m1 (\<lambda>w. False) empty_db mixed_jsonl None
       = (empty_db, Inl (Error ''Invalid JSON in JSONL: Unexpected token''))"
    by simp
  from thm2 B nn obtain db' r' where
    r: "importMemories env_m1 (\<lambda>w. False) empty_db good_jsonl None = (db', Inr r')"
    and m: "memories db' = map_of (batch_rows env_m1 (\<lambda>w. False) ?vs) ++ memories empty_db"
    and r': "created r' + skipped r' + length (errors r') = length ?vs"
    "created r' = card (dom (memories db') - dom (memories empty_db))"
    "length (errors r') \<le> length (filter (\<lambda>v. False \<or> record_row env_m1 v = None) ?vs)"
    by blast
  from m have m': "memories db' = [''m1'' \<mapsto> row_m1, ''m2'' \<mapsto> row_m2]"
    by (simp only: br mp)
  from r'(2) have c: "created r' = 2" by (simp only: m' cd)
  from r'(3) have e: "errors r' = []" by (simp only: nb list.size length_0_conv le_zero_eq)
  from r'(1) c e have s: "skipped r' = 1" by simp
  from r m' c s e have
    "\<exists>db' r. importMemories env_m1 (\<lambda>w. False) empty_db good_jsonl None = (db', Inr r)
         \<and> memories db' = [''m1'' \<mapsto> row_m1, ''m2'' \<mapsto> row_m2]
         \<and> created r = 2 \<and> skipped r = 1 \<and> errors r = []"
    by (intro exI [of _ db'] exI [of _ r'] conjI) simp_all
  with A 1 B nn show ?thesis by (intro conjI)
qed


section \<open>Bead event store: results\<close>

lemma insert_event_row:
  "insert_event db event = (db1, i, s)
     \<Longrightarrow> events db1 = events db @
           [\<lparr>row_id = i, row_type = ev_type event, row_project_key = ev_project_key event,
             row_timestamp = ev_timestamp event, row_sequence = s,
             row_data = JObject (ev_rest event)\<rparr>]
         \<and> i = id_seq db + 1 \<and> s = sequence_seq db + 1 \<and> projections db1 = projections db"
  by (auto simp: insert_event_def Let_def)

text \<open>
  C1 (amended). \<open>appendBeadEvent\<close> first inserts the event row, with the next \<open>id\<close>
  and \<open>sequence\<close>, and then runs the projection update on a database that already
  holds that row, so the event is visible to the update. When the update succeeds the
  stored event is returned. When the update throws, the error is passed on and the
  database is left as the update left it: nothing is rolled back, and if the update
  left the \<open>events\<close> table alone, the inserted row is still there. Only an \<open>INSERT\<close>
  that throws or returns no row leaves the database unchanged.
\<close>

theorem appendBeadEvent_no_rollback:
  "\<exists>db1 stored.
      events db1 = events db @
           [\<lparr>row_id = id_seq db + 1, row_type = ev_type event,
             row_project_key = ev_project_key event, row_timestamp = ev_timestamp event,
             row_sequence = sequence_seq db + 1, row_data = JObject (ev_rest event)\<rparr>]
    \<and> projections db1 = projections db
    \<and> stored = \<lparr>stored_event = event, stored_id = id_seq db + 1,
                  stored_sequence = sequence_seq db + 1\<rparr>
    \<and> appendBeadEvent upd InsertThrows db event
          = (db, Inl (DatabaseError (QueryFailed WriteEvent)))
    \<and> appendBeadEvent upd InsertNoRow db event
          = (db, Inl (Error ''[BeadsStore] Failed to insert event - no row returned''))
    \<and> (\<forall>db2. upd db1 stored = (db2, None)
           \<longrightarrow> appendBeadEvent upd InsertRow db event = (db2, Inr stored))
    \<and> (\<forall>db2 e. upd db1 stored = (db2, Some e)
           \<longrightarrow> appendBeadEvent upd InsertRow db event = (db2, Inl e))
    \<and> (\<forall>db2 e. upd db1 stored = (db2, Some e) \<and> events db2 = events db1
           \<longrightarrow> events (fst (appendBeadEvent upd InsertRow db event)) \<noteq> events db)"
proof -
  obtain db1 i s where ins: "insert_event db event = (db1, i, s)"
    by (cases "insert_event db event") blast
  note r = insert_event_row [OF ins]
  define stored where "stored = \<lparr>stored_event = event, stored_id = id_seq db + 1,
                  stored_sequence = sequence_seq db + 1\<rparr>"
  have ok: "appendBeadEvent upd InsertRow db event = (db2, Inr stored)"
    if "upd db1 stored = (db2, None)" for db2
    using that ins r by (simp add: appendBeadEvent_def stored_def Let_def)
  have err: "appendBeadEvent upd InsertRow db event = (db2, Inl e)"
    if "upd db1 stored = (db2, Some e)" for db2 e
    using that ins r by (simp add: appendBeadEvent_def stored_def Let_def)
  have keep: "events (fst (appendBeadEvent upd InsertRow db event)) \<noteq> events db"
    if "upd db1 stored = (db2, Some e) \<and> events db2 = events db1" for db2 e
    using that err [of db2 e] r by simp
  have fail: "appendBeadEvent upd InsertThrows db event
          = (db, Inl (DatabaseError (QueryFailed WriteEvent)))"
    by (simp add: appendBeadEvent_def)
  have norow: "appendBeadEvent upd InsertNoRow db event
          = (db, Inl (Error ''[BeadsStore] Failed to insert event - no row returned''))"
    by (simp add: appendBeadEvent_def)
  show ?thesis
  proof (intro exI [of _ db1] exI [of _ stored] conjI allI impI)
    show "events db1 = events db @
           [\<lparr>row_id = id_seq db + 1, row_type = ev_type event,
             row_project_key = ev_project_key event, row_timestamp = ev_timestamp event,
             row_sequence = sequence_seq db + 1, row_data = JObject (ev_rest event)\<rparr>]"
      using r by simp
    show "projections db1 = projections db" using r by simp
    show "stored = \<lparr>stored_event = event, stored_id = id_seq db + 1,
                  stored_sequence = sequence_seq db + 1\<rparr>" by (fact stored_def)
    show "appendBeadEvent upd InsertThrows db event
          = (db, Inl (DatabaseError (QueryFailed WriteEvent)))"
      by (fact fail)
    show "appendBeadEvent upd InsertNoRow db event
          = (db, Inl (Error ''[BeadsStore] Failed to insert event - no row returned''))"
      by (fact norow)
  next
    fix db2 assume "upd db1 stored = (db2, None)"
    then show "appendBeadEvent upd InsertRow db event = (db2, Inr stored)" by (rule ok)
  next
    fix db2 e assume "upd db1 stored = (db2, Some e)"
    then show "appendBeadEvent upd InsertRow db event = (db2, Inl e)" by (rule err)
  next
    fix db2 e assume "upd db1 stored = (db2, Some e) \<and> events db2 = events db1"
    then show "events (fst (appendBeadEvent upd InsertRow db event)) \<noteq> events db" by (rule keep)
  qed
qed

text \<open>
  C1 as stated: the projection update throws after the event row is inserted. The
  error is passed on, and the \<open>events\<close> table keeps the row: it has one row where it
  had none.
\<close>

theorem appendBeadEvent_rollback_counterexample:
  "snd (appendBeadEvent failing_update InsertRow no_events event_s1)
     = Inl (Error ''projection update failed'')
   \<and> events (fst (appendBeadEvent failing_update InsertRow no_events event_s1))
     = [\<lparr>row_id = 1, row_type = ''bead_created'', row_project_key = ''/repo'',
         row_timestamp = 1700000000000, row_sequence = 1,
         row_data = JObject [(''bead_id'', JString ''bd-1''), (''title'', JString ''t'')]\<rparr>]
   \<and> events no_events = []"
  by (simp add: appendBeadEvent_def insert_event_def failing_update_def no_events_def
      event_s1_def Let_def)

text \<open>The event of scenario S1 with an update that succeeds, and with one that throws.\<close>

theorem appendBeadEvent_no_rollback_witness:
  "snd (appendBeadEvent title_update InsertRow no_events event_s1)
     = Inr \<lparr>stored_event = event_s1, stored_id = 1, stored_sequence = 1\<rparr>
   \<and> snd (appendBeadEvent failing_update InsertRow no_events event_s1)
     = Inl (Error ''projection update failed'')
   \<and> events (fst (appendBeadEvent failing_update InsertRow no_events event_s1)) \<noteq> events no_events"
proof -
  from appendBeadEvent_no_rollback [of no_events event_s1 title_update]
  obtain db1 stored where
    a: "stored = \<lparr>stored_event = event_s1, stored_id = id_seq no_events + 1,
                  stored_sequence = sequence_seq no_events + 1\<rparr>"
    and b: "\<forall>db2. title_update db1 stored = (db2, None)
           \<longrightarrow> appendBeadEvent title_update InsertRow no_events event_s1 = (db2, Inr stored)"
    by blast
  have "title_update db1 stored = (db1\<lparr>projections := projections db1 @ [ev_type (stored_event stored)]\<rparr>, None)"
    by (simp add: title_update_def)
  with b have "snd (appendBeadEvent title_update InsertRow no_events event_s1) = Inr stored" by simp
  then have 1: "snd (appendBeadEvent title_update InsertRow no_events event_s1)
     = Inr \<lparr>stored_event = event_s1, stored_id = 1, stored_sequence = 1\<rparr>"
    using a by (simp add: no_events_def)
  from appendBeadEvent_no_rollback [of no_events event_s1 failing_update]
  obtain db1' stored' where
    c: "\<forall>db2 e. failing_update db1' stored' = (db2, Some e)
           \<longrightarrow> appendBeadEvent failing_update InsertRow no_events event_s1 = (db2, Inl e)"
    and d: "\<forall>db2 e. failing_update db1' stored' = (db2, Some e) \<and> events db2 = events db1'
           \<longrightarrow> events (fst (appendBeadEvent failing_update InsertRow no_events event_s1)) \<noteq> events no_events"
    by blast
  have f: "failing_update db1' stored' = (db1', Some (Error ''projection update failed''))"
    by (simp add: failing_update_def)
  with c have 2: "snd (appendBeadEvent failing_update InsertRow no_events event_s1)
     = Inl (Error ''projection update failed'')" by simp
  from d f have 3: "events (fst (appendBeadEvent failing_update InsertRow no_events event_s1)) \<noteq> events no_events"
    by blast
  from 1 2 3 show ?thesis by blast
qed

end
